theory Spec2Isabelle
  imports Complex_Main
begin

section \<open>Data model of \<open>video_workflow_server.py\<close>\<close>

text \<open>
  The configuration dictionary \<open>CONFIG\<close> (lines 30-39) as a record; the source reads it
  through \<open>self.config[...]\<close> and never writes it.
\<close>

record Config =
  comfyui_url :: string
  max_concurrent_jobs :: nat
  upload_dir :: string
  output_dir :: string
  max_retries :: int
  retry_delay :: real
  cleanup_old_files :: bool
  cleanup_days :: int

definition CONFIG :: Config where
  "CONFIG = \<lparr> comfyui_url = ''http://192.168.31.150:8001'',
              max_concurrent_jobs = 1,
              upload_dir = ''uploads'',
              output_dir = ''outputs'',
              max_retries = 3,
              retry_delay = 5,
              cleanup_old_files = True,
              cleanup_days = 7 \<rparr>"

datatype JobStatus = PENDING | UPLOADING | PROCESSING | COMPLETED | FAILED | CANCELLED

datatype VideoFormat = MP4 | WEBM | GIF

record WorkflowConfig =
  positive_prompt :: string
  negative_prompt :: string
  seed :: int
  randomize_seed :: bool
  fps :: int
  duration :: int
  format :: VideoFormat

text \<open>
  The dataclass \<open>Job\<close> (lines 71-87). The field \<open>id\<close> is called \<open>ident\<close> here; paths
  are strings; timestamps are readings of the clock; \<open>progress\<close> is a Python float, modelled
  as a real number (the source only assigns the constants 10, 30, 40, 50, 80, 100 and
  \<open>50 + min(30, elapsed / 300 * 30)\<close>).
\<close>

record Job =
  ident :: string
  filename :: string
  original_filename :: string
  filepath :: string
  status :: JobStatus
  progress :: real
  config :: WorkflowConfig
  comfy_prompt_id :: "string option"
  result_path :: "string option"
  error_message :: "string option"
  created_at :: real
  started_at :: "real option"
  completed_at :: "real option"
  retry_count :: int

section \<open>Workflow construction\<close>

text \<open>Python's \<open>int(x)\<close> on a float: truncation towards zero.\<close>

definition py_int :: "real \<Rightarrow> int" where
  "py_int x = (if x < 0 then \<lceil>x\<rceil> else \<lfloor>x\<rfloor>)"

text \<open>The JSON-like dictionary that is posted to the backend as \<open>{"prompt": workflow}\<close>.\<close>

datatype json =
    JInt int
  | JFloat real
  | JStr string
  | JList "json list"
  | JDict "(string \<times> json) list"

text \<open>\<open>_get_default_workflow\<close>, lines 259-277.\<close>

definition get_default_workflow :: json where
  "get_default_workflow =
     JDict [(''3'',
       JDict [(''inputs'',
                JDict [(''seed'', JInt 88888),
                       (''steps'', JInt 20),
                       (''cfg'', JFloat 7),
                       (''sampler_name'', JStr ''euler''),
                       (''scheduler'', JStr ''normal''),
                       (''denoise'', JFloat 1),
                       (''model'', JList [JStr ''4'', JInt 0]),
                       (''positive'', JList [JStr ''6'', JInt 0]),
                       (''negative'', JList [JStr ''7'', JInt 0]),
                       (''latent_image'', JList [JStr ''5'', JInt 0])]),
              (''class_type'', JStr ''KSampler'')])]"

text \<open>
  The file \<open>services/workflowTemplate.ts\<close> that \<open>_generate_workflow\<close> looks for: absent,
  readable with some content, or present but failing in \<open>open\<close>/\<open>read\<close> with an exception
  whose text is given.
\<close>

datatype template_file = Absent | Readable string | Unreadable string

text \<open>
  \<open>_generate_workflow\<close>, lines 238-257. Both branches take the built-in workflow; the file
  content is read and dropped; \<open>seed\<close> is computed from the configuration and the clock and
  never used. An exception of the file read is the \<open>Inl\<close> result.
\<close>

definition generate_workflow ::
  "template_file \<Rightarrow> real \<Rightarrow> string \<Rightarrow> WorkflowConfig \<Rightarrow> string + json" where
  "generate_workflow tf now image_filename cfg =
     (case tf of
        Absent \<Rightarrow>
          (let workflow = get_default_workflow;
               seed' = (if \<not> randomize_seed cfg then seed cfg
                        else py_int (now * 1000) mod 1000000)
           in Inr workflow)
      | Readable content \<Rightarrow>
          (let workflow = get_default_workflow;
               seed' = (if \<not> randomize_seed cfg then seed cfg
                        else py_int (now * 1000) mod 1000000)
           in Inr workflow)
      | Unreadable e \<Rightarrow> Inl e)"

section \<open>The cleanup task\<close>

text \<open>
  A directory tree is the list of its regular files in the order \<open>rglob("*")\<close> yields them,
  each with its modification time. One pass of a \<open>for file in dir.rglob("*")\<close> loop of
  \<open>_cleanup_task\<close> (lines 368-370, 373-375): a file older than the cutoff is unlinked; at a
  path in \<open>bad\<close> the \<open>stat\<close> or the \<open>unlink\<close> raises, the pass stops there and the flag is
  \<open>False\<close>.
\<close>

type_synonym files = "(string \<times> real) list"

fun sweep :: "real \<Rightarrow> string list \<Rightarrow> files \<Rightarrow> files \<times> bool" where
  "sweep cutoff_time bad [] = ([], True)"
| "sweep cutoff_time bad ((p, mtime) # fs) =
     (if p \<in> set bad then ((p, mtime) # fs, False)
      else if mtime < cutoff_time then sweep cutoff_time bad fs
      else (case sweep cutoff_time bad fs of (fs', ok) \<Rightarrow> ((p, mtime) # fs', ok)))"

text \<open>
  One cycle of the \<open>while True\<close> loop of \<open>_cleanup_task\<close> (lines 365-375), on the two
  directory trees and the clock reading: the second loop runs only if the first did not raise
  (the handler at lines 379-381 logs and sleeps).
\<close>

definition cleanup_dirs :: "Config \<Rightarrow> real \<Rightarrow> string list \<Rightarrow> files \<Rightarrow> files \<Rightarrow> files \<times> files" where
  "cleanup_dirs cfg now bad uploads outputs =
     (let cutoff_time = now - real_of_int (cleanup_days cfg * 24 * 3600)
      in case sweep cutoff_time bad uploads of
           (uploads', ok) \<Rightarrow>
             if ok then (uploads', fst (sweep cutoff_time bad outputs))
             else (uploads', outputs))"

section \<open>The server state\<close>

text \<open>
  The calls made to the backend, in the order they are issued: \<open>_upload_to_comfyui\<close> with
  the file path, \<open>_queue_workflow\<close> with the workflow, the history request of
  \<open>_wait_for_completion\<close>, \<open>_download_result\<close>, and the \<open>DELETE\<close> of \<open>cancel_job\<close>.
\<close>

datatype backend_call =
    Upload string
  | QueueWorkflow json
  | History string
  | Download string
  | DeletePrompt string

text \<open>
  Where a worker coroutine (\<open>_worker\<close>, lines 139-163) and the task it awaits are suspended.
  Between two suspension points asyncio runs a coroutine without interruption.
  \<^item> \<open>Idle\<close>: in \<open>await self.job_queue.get()\<close> (line 144), the queue being empty;
  \<^item> \<open>Spawned j\<close>: the task for job \<open>j\<close> is created and registered (lines 150-151), the worker
    is in \<open>await task\<close> (line 154), \<open>_process_job\<close> has not started yet;
  \<^item> \<open>AwaitUpload j\<close>: in \<open>_upload_to_comfyui\<close> (line 176);
  \<^item> \<open>AwaitQueue j\<close>: in \<open>_queue_workflow\<close> (line 185);
  \<^item> \<open>AwaitHistory j p t\<close>: in the request of line 301, for prompt \<open>p\<close>, \<open>start_time = t\<close>;
  \<^item> \<open>PollSleep j p t\<close>: in \<open>asyncio.sleep(2)\<close> (line 310);
  \<^item> \<open>AwaitDownload j p\<close>: in \<open>_download_result\<close> (line 194);
  \<^item> \<open>RetrySleep j\<close>: in \<open>asyncio.sleep(retry_delay)\<close> (line 213);
  \<^item> \<open>Finishing j\<close>: \<open>_process_job\<close> has returned, the worker has not yet resumed at line 157;
  \<^item> \<open>Cancelling j\<close>: \<open>cancel()\<close> was called on the unfinished task (line 445), the
    \<open>CancelledError\<close> has not been delivered yet;
  \<^item> \<open>Dead\<close>: the worker coroutine has ended.
\<close>

datatype wstate =
    Idle
  | Spawned string
  | AwaitUpload string
  | AwaitQueue string
  | AwaitHistory string string real
  | PollSleep string string real
  | AwaitDownload string string
  | RetrySleep string
  | Finishing string
  | Cancelling string
  | Dead

text \<open>The job whose task a worker has created and that is not done.\<close>

fun running :: "wstate \<Rightarrow> string option" where
  "running Idle = None"
| "running (Spawned j) = Some j"
| "running (AwaitUpload j) = Some j"
| "running (AwaitQueue j) = Some j"
| "running (AwaitHistory j p t) = Some j"
| "running (PollSleep j p t) = Some j"
| "running (AwaitDownload j p) = Some j"
| "running (RetrySleep j) = Some j"
| "running (Finishing j) = None"
| "running (Cancelling j) = Some j"
| "running Dead = None"

text \<open>
  \<open>WorkflowServer\<close> (lines 104-110): \<open>jobs\<close>, \<open>job_queue\<close> (an unbounded FIFO
  \<open>asyncio.Queue\<close>) and \<open>processing_tasks\<close> (the task of a job is named by the worker that
  created it) as in the source; together with the control state of the worker coroutines, the
  calls of \<open>cancel_job\<close> that are suspended in the backend \<open>DELETE\<close>, the two directories,
  the clock (\<open>time.time()\<close>, \<open>datetime.now()\<close>), the calls made to the backend so far, and
  the template file.
\<close>

record WorkflowServer =
  jobs :: "string \<rightharpoonup> Job"
  job_queue :: "string list"
  processing_tasks :: "string \<rightharpoonup> nat"
  workers :: "nat \<rightharpoonup> wstate"
  suspended_cancels :: "string list"
  upload_files :: files
  output_files :: files
  clock :: real
  backend_calls :: "backend_call list"
  template :: template_file

text \<open>
  The state after \<open>__init__\<close> and \<open>start\<close> (lines 105-132): no job, nothing queued, workers
  \<open>1 .. max_concurrent_jobs\<close> waiting on the queue. Directory contents, clock and template
  file are whatever they are at that time.
\<close>

definition initial :: "Config \<Rightarrow> WorkflowServer \<Rightarrow> bool" where
  "initial cfg s \<longleftrightarrow>
     jobs s = Map.empty \<and> job_queue s = [] \<and> processing_tasks s = Map.empty \<and>
     suspended_cancels s = [] \<and>
     workers s = (\<lambda>i. if 1 \<le> i \<and> i \<le> max_concurrent_jobs cfg then Some Idle else None)"

definition start :: "Config \<Rightarrow> WorkflowServer" where
  "start cfg =
     \<lparr> jobs = Map.empty, job_queue = [], processing_tasks = Map.empty,
       workers = (\<lambda>i. if 1 \<le> i \<and> i \<le> max_concurrent_jobs cfg then Some Idle else None),
       suspended_cancels = [], upload_files = [], output_files = [], clock = 0,
       backend_calls = [], template = Absent \<rparr>"

text \<open>Writing a file: an existing path keeps its place and gets the new time.\<close>

fun write_file :: "string \<Rightarrow> real \<Rightarrow> files \<Rightarrow> files" where
  "write_file p t [] = [(p, t)]"
| "write_file p t ((q, u) # fs) = (if q = p then (p, t) # fs else (q, u) # write_file p t fs)"

text \<open>Decimal notation of an integer, for the \<open>f"{timestamp}_..."\<close> of line 390.\<close>

fun str_nat :: "nat \<Rightarrow> string" where
  "str_nat n =
     (if n < 10 then [char_of (48 + n)]
      else str_nat (n div 10) @ [char_of (48 + n mod 10)])"

definition str_int :: "int \<Rightarrow> string" where
  "str_int i = (if i < 0 then CHR ''-'' # str_nat (nat (- i)) else str_nat (nat i))"

section \<open>API methods\<close>

text \<open>
  \<open>create_job\<close> (lines 384-411), with the value of \<open>uuid.uuid4()\<close>, the name of the uploaded
  file and the configuration as inputs. The method touches the shared state only after its
  own file write, so it is one step.
\<close>

definition create_job ::
  "Config \<Rightarrow> string \<Rightarrow> string \<Rightarrow> WorkflowConfig \<Rightarrow> WorkflowServer \<Rightarrow> WorkflowServer" where
  "create_job cfg job_id fname wcfg s =
     (let timestamp = py_int (clock s);
          safe_filename = map (\<lambda>c. if c = CHR '' '' \<or> c = CHR ''/'' then CHR ''_'' else c) fname;
          filename' = str_int timestamp @ ''_'' @ safe_filename;
          filepath' = upload_dir cfg @ ''/'' @ filename';
          job = \<lparr> ident = job_id, filename = filename', original_filename = fname,
                  filepath = filepath', status = PENDING, progress = 0, config = wcfg,
                  comfy_prompt_id = None, result_path = None, error_message = None,
                  created_at = clock s, started_at = None, completed_at = None,
                  retry_count = 0 \<rparr>
      in s\<lparr> upload_files := write_file filepath' (clock s) (upload_files s),
             jobs := (jobs s)(job_id \<mapsto> job),
             job_queue := job_queue s @ [job_id] \<rparr>)"

text \<open>\<open>queue_job\<close>, lines 413-416.\<close>

definition queue_job :: "string \<Rightarrow> WorkflowServer \<Rightarrow> WorkflowServer" where
  "queue_job job_id s =
     (if job_id \<in> dom (jobs s) then s\<lparr> job_queue := job_queue s @ [job_id] \<rparr> else s)"

text \<open>
  Lines 444-445 of \<open>cancel_job\<close>: \<open>cancel()\<close> on the task registered for the job. On a task
  that is done it has no effect; an unfinished task gets a \<open>CancelledError\<close> at its next
  resumption.
\<close>

definition cancel_task :: "string \<Rightarrow> WorkflowServer \<Rightarrow> WorkflowServer" where
  "cancel_task job_id s =
     (case processing_tasks s job_id of
        None \<Rightarrow> s
      | Some w \<Rightarrow>
          (case workers s w of
             None \<Rightarrow> s
           | Some st \<Rightarrow>
               if running st = Some job_id
               then s\<lparr> workers := (workers s)(w \<mapsto> Cancelling job_id) \<rparr>
               else s))"

text \<open>
  \<open>cancel_job\<close> (lines 426-448) up to its first suspension. The result is \<open>Some b\<close> when the
  method returns \<open>b\<close> without suspending, and \<open>None\<close> when it is suspended in the backend
  \<open>DELETE\<close> (lines 434-441, entered when \<open>comfy_prompt_id\<close> is a non-empty string); it is
  then continued by \<open>cancel_job_finish\<close>, whatever the backend answers.
\<close>

definition cancel_job_finish :: "string \<Rightarrow> WorkflowServer \<Rightarrow> WorkflowServer \<times> bool" where
  "cancel_job_finish job_id s = (cancel_task job_id s, True)"

definition cancel_job :: "string \<Rightarrow> WorkflowServer \<Rightarrow> WorkflowServer \<times> bool option" where
  "cancel_job job_id s =
     (case jobs s job_id of
        None \<Rightarrow> (s, Some False)
      | Some job \<Rightarrow>
          if status job \<in> {PENDING, UPLOADING, PROCESSING} then
            (let s1 = s\<lparr> jobs := (jobs s)(job_id \<mapsto> job\<lparr> status := CANCELLED \<rparr>) \<rparr>
             in case comfy_prompt_id job of
                  None \<Rightarrow> (case cancel_job_finish job_id s1 of (s2, b) \<Rightarrow> (s2, Some b))
                | Some pid \<Rightarrow>
                    if pid = [] then (case cancel_job_finish job_id s1 of (s2, b) \<Rightarrow> (s2, Some b))
                    else (s1\<lparr> backend_calls := backend_calls s1 @ [DeletePrompt pid],
                              suspended_cancels := suspended_cancels s1 @ [job_id] \<rparr>, None))
          else (s, Some False))"

text \<open>The routes \<open>DELETE /api/jobs/{job_id}\<close> (lines 526-532) and
  \<open>GET /api/jobs/{job_id}/result\<close> (lines 534-548).\<close>

datatype HTTPException = HTTPException (status_code: nat) (detail: string)

definition cancel_job_route :: "bool \<Rightarrow> HTTPException + (string \<times> string) list" where
  "cancel_job_route success =
     (if \<not> success then Inl (HTTPException 404 ''Job not found or cannot be cancelled'')
      else Inr [(''status'', ''cancelled'')])"

definition get_job_result :: "string \<Rightarrow> WorkflowServer \<Rightarrow> HTTPException + string" where
  "get_job_result job_id s =
     (case jobs s job_id of
        None \<Rightarrow> Inl (HTTPException 404 ''Job not found'')
      | Some job \<Rightarrow>
          if status job \<noteq> COMPLETED \<or> result_path job = None
          then Inl (HTTPException 400 ''Job not completed or no result'')
          else Inr (the (result_path job)))"

section \<open>Processing a job\<close>

text \<open>
  The handler of \<open>_process_job\<close> (lines 204-213), run by worker \<open>w\<close> for an exception with
  text \<open>e\<close>: up to the retry sleep when a retry is left, to the end of the task otherwise.
\<close>

definition fail_attempt :: "Config \<Rightarrow> nat \<Rightarrow> string \<Rightarrow> string \<Rightarrow> WorkflowServer \<Rightarrow> WorkflowServer" where
  "fail_attempt cfg w job_id e s =
     (case jobs s job_id of
        None \<Rightarrow> s
      | Some job \<Rightarrow>
          (let job1 = job\<lparr> status := FAILED, error_message := Some e \<rparr>
           in if retry_count job1 < max_retries cfg
              then s\<lparr> jobs := (jobs s)(job_id \<mapsto> job1\<lparr> retry_count := retry_count job1 + 1 \<rparr>),
                      workers := (workers s)(w \<mapsto> RetrySleep job_id) \<rparr>
              else s\<lparr> jobs := (jobs s)(job_id \<mapsto> job1),
                      workers := (workers s)(w \<mapsto> Finishing job_id) \<rparr>))"

text \<open>Lines 167-176: the task starts and calls \<open>_upload_to_comfyui\<close>.\<close>

definition begin_attempt :: "nat \<Rightarrow> string \<Rightarrow> WorkflowServer \<Rightarrow> WorkflowServer" where
  "begin_attempt w job_id s =
     (case jobs s job_id of
        None \<Rightarrow> s
      | Some job \<Rightarrow>
          s\<lparr> jobs := (jobs s)(job_id \<mapsto>
                 job\<lparr> status := UPLOADING, started_at := Some (clock s), progress := 10 \<rparr>),
             backend_calls := backend_calls s @ [Upload (filepath job)],
             workers := (workers s)(w \<mapsto> AwaitUpload job_id) \<rparr>)"

text \<open>Lines 176-185: the upload returned \<open>name\<close>; up to the call of \<open>_queue_workflow\<close>.\<close>

definition upload_returned ::
  "Config \<Rightarrow> nat \<Rightarrow> string \<Rightarrow> string \<Rightarrow> WorkflowServer \<Rightarrow> WorkflowServer" where
  "upload_returned cfg w job_id name s =
     (case jobs s job_id of
        None \<Rightarrow> s
      | Some job \<Rightarrow>
          (let job1 = job\<lparr> progress := 30 \<rparr>
           in case generate_workflow (template s) (clock s) name (config job1) of
                Inl e \<Rightarrow> fail_attempt cfg w job_id e (s\<lparr> jobs := (jobs s)(job_id \<mapsto> job1) \<rparr>)
              | Inr workflow \<Rightarrow>
                  s\<lparr> jobs := (jobs s)(job_id \<mapsto> job1\<lparr> progress := 40, status := PROCESSING \<rparr>),
                     backend_calls := backend_calls s @ [QueueWorkflow workflow],
                     workers := (workers s)(w \<mapsto> AwaitQueue job_id) \<rparr>))"

text \<open>
  The head of the loop of \<open>_wait_for_completion\<close> (line 300) and the \<open>TimeoutError\<close> behind
  it (line 312).
\<close>

definition max_wait :: real where
  "max_wait = 300"

definition poll :: "Config \<Rightarrow> nat \<Rightarrow> string \<Rightarrow> string \<Rightarrow> real \<Rightarrow> WorkflowServer \<Rightarrow> WorkflowServer" where
  "poll cfg w job_id prompt_id start_time s =
     (if clock s - start_time < max_wait
      then s\<lparr> backend_calls := backend_calls s @ [History prompt_id],
              workers := (workers s)(w \<mapsto> AwaitHistory job_id prompt_id start_time) \<rparr>
      else fail_attempt cfg w job_id (''ComfyUI execution timeout for prompt '' @ prompt_id) s)"

text \<open>Lines 185-190 and 295-301: \<open>_queue_workflow\<close> returned the prompt id.\<close>

definition queue_returned ::
  "Config \<Rightarrow> nat \<Rightarrow> string \<Rightarrow> string \<Rightarrow> WorkflowServer \<Rightarrow> WorkflowServer" where
  "queue_returned cfg w job_id prompt_id s =
     (case jobs s job_id of
        None \<Rightarrow> s
      | Some job \<Rightarrow>
          poll cfg w job_id prompt_id (clock s)
            (s\<lparr> jobs := (jobs s)(job_id \<mapsto>
                    job\<lparr> comfy_prompt_id := Some prompt_id, progress := 50 \<rparr>) \<rparr>))"

text \<open>
  Lines 302-310 and 191-194: the history request answered; \<open>completed\<close> says whether the
  answer had status 200 and reported the prompt as completed.
\<close>

definition history_returned ::
  "nat \<Rightarrow> string \<Rightarrow> string \<Rightarrow> real \<Rightarrow> bool \<Rightarrow> WorkflowServer \<Rightarrow> WorkflowServer" where
  "history_returned w job_id prompt_id start_time completed s =
     (case jobs s job_id of
        None \<Rightarrow> s
      | Some job \<Rightarrow>
          if completed
          then s\<lparr> jobs := (jobs s)(job_id \<mapsto> job\<lparr> progress := 80 \<rparr>),
                  backend_calls := backend_calls s @ [Download prompt_id],
                  workers := (workers s)(w \<mapsto> AwaitDownload job_id prompt_id) \<rparr>
          else (let elapsed = clock s - start_time
                in s\<lparr> jobs := (jobs s)(job_id \<mapsto>
                          job\<lparr> progress := 50 + min 30 (elapsed / max_wait * 30) \<rparr>),
                       workers := (workers s)(w \<mapsto> PollSleep job_id prompt_id start_time) \<rparr>))"

text \<open>
  Lines 345-359 and 195-202: \<open>_download_result\<close> wrote the file named \<open>fname\<close> by the
  backend and returned its path; the job is completed and the task ends.
\<close>

definition download_returned ::
  "Config \<Rightarrow> nat \<Rightarrow> string \<Rightarrow> string \<Rightarrow> WorkflowServer \<Rightarrow> WorkflowServer" where
  "download_returned cfg w job_id fname s =
     (case jobs s job_id of
        None \<Rightarrow> s
      | Some job \<Rightarrow>
          (let output_filename = ident job @ ''_'' @ fname;
               output_path = output_dir cfg @ ''/'' @ output_filename
           in s\<lparr> jobs := (jobs s)(job_id \<mapsto>
                     job\<lparr> result_path := Some output_path, progress := 100,
                          status := COMPLETED, completed_at := Some (clock s) \<rparr>),
                  output_files := write_file output_path (clock s) (output_files s),
                  workers := (workers s)(w \<mapsto> Finishing job_id) \<rparr>))"

text \<open>Lines 213-214: the retry sleep is over, the job is queued again and the task ends.\<close>

definition retry_woke :: "nat \<Rightarrow> string \<Rightarrow> WorkflowServer \<Rightarrow> WorkflowServer" where
  "retry_woke w job_id s =
     (let s1 = queue_job job_id s in s1\<lparr> workers := (workers s1)(w \<mapsto> Finishing job_id) \<rparr>)"

section \<open>The worker loop\<close>

text \<open>
  Lines 142-147: identifiers are taken from the queue until one is found in \<open>jobs\<close>;
  the result is that identifier, if any, and the rest of the queue.
\<close>

fun dequeue :: "string list \<Rightarrow> (string \<rightharpoonup> Job) \<Rightarrow> string option \<times> string list" where
  "dequeue [] js = (None, [])"
| "dequeue (job_id # q) js =
     (case js job_id of None \<Rightarrow> dequeue q js | Some job \<Rightarrow> (Some job_id, q))"

text \<open>Lines 142-154: the loop up to the next suspension, in \<open>get\<close> or in \<open>await task\<close>.\<close>

definition worker_loop :: "nat \<Rightarrow> WorkflowServer \<Rightarrow> WorkflowServer" where
  "worker_loop w s =
     (case dequeue (job_queue s) (jobs s) of
        (None, q) \<Rightarrow> s\<lparr> job_queue := q, workers := (workers s)(w \<mapsto> Idle) \<rparr>
      | (Some job_id, q) \<Rightarrow>
          s\<lparr> job_queue := q,
             processing_tasks := (processing_tasks s)(job_id \<mapsto> w),
             workers := (workers s)(w \<mapsto> Spawned job_id) \<rparr>)"

text \<open>
  Lines 154-159 when the task has ended, by return or by an \<open>Exception\<close>: the \<open>finally\<close>
  block and the next round of the loop.
\<close>

definition worker_resume :: "nat \<Rightarrow> string \<Rightarrow> WorkflowServer \<Rightarrow> WorkflowServer" where
  "worker_resume w job_id s =
     worker_loop w (s\<lparr> processing_tasks := (processing_tasks s)(job_id := None) \<rparr>)"

text \<open>
  Lines 154-163 when the task was cancelled: \<open>await task\<close> raises \<open>CancelledError\<close>, which
  is a \<open>BaseException\<close> and no \<open>Exception\<close> (Python 3.8 and later); neither handler of
  \<open>_worker\<close> (lines 155, 161) nor the one of \<open>_process_job\<close> (line 204) catches it. The
  \<open>finally\<close> block runs and the worker coroutine ends.
\<close>

definition worker_cancelled :: "nat \<Rightarrow> string \<Rightarrow> WorkflowServer \<Rightarrow> WorkflowServer" where
  "worker_cancelled w job_id s =
     s\<lparr> processing_tasks := (processing_tasks s)(job_id := None),
        workers := (workers s)(w \<mapsto> Dead) \<rparr>"

text \<open>
  What resumes a suspended worker or its task: \<open>Resume\<close> (a queue item, the start of the
  task, the end of a sleep, the end of the task), a value returned by the backend call, the
  answer of a history request, or an exception raised by the awaited call.
\<close>

datatype reply = Resume | Returned string | HistoryReply bool | Raised string

fun react :: "Config \<Rightarrow> nat \<Rightarrow> wstate \<Rightarrow> reply \<Rightarrow> WorkflowServer \<Rightarrow> WorkflowServer" where
  "react cfg w Idle Resume s = worker_loop w s"
| "react cfg w (Spawned j) Resume s = begin_attempt w j s"
| "react cfg w (AwaitUpload j) (Returned name) s = upload_returned cfg w j name s"
| "react cfg w (AwaitUpload j) (Raised e) s = fail_attempt cfg w j e s"
| "react cfg w (AwaitQueue j) (Returned prompt_id) s = queue_returned cfg w j prompt_id s"
| "react cfg w (AwaitQueue j) (Raised e) s = fail_attempt cfg w j e s"
| "react cfg w (AwaitHistory j p t) (HistoryReply completed) s = history_returned w j p t completed s"
| "react cfg w (AwaitHistory j p t) (Raised e) s = fail_attempt cfg w j e s"
| "react cfg w (PollSleep j p t) Resume s = poll cfg w j p t s"
| "react cfg w (AwaitDownload j p) (Returned fname) s = download_returned cfg w j fname s"
| "react cfg w (AwaitDownload j p) (Raised e) s = fail_attempt cfg w j e s"
| "react cfg w (RetrySleep j) Resume s = retry_woke w j s"
| "react cfg w (Finishing j) Resume s = worker_resume w j s"
| "react cfg w (Cancelling j) r s = worker_cancelled w j s"
| "react cfg w st r s = s"

definition worker_step :: "Config \<Rightarrow> nat \<Rightarrow> reply \<Rightarrow> WorkflowServer \<Rightarrow> WorkflowServer" where
  "worker_step cfg w r s = (case workers s w of None \<Rightarrow> s | Some st \<Rightarrow> react cfg w st r s)"

section \<open>Runs of the server\<close>

text \<open>
  The events that move the server from one suspension point to the next: an API call
  \<open>create_job\<close> or \<open>cancel_job\<close>, the continuation of a suspended \<open>cancel_job\<close>, the
  resumption of a worker, one cycle of the cleanup task (with the paths whose \<open>unlink\<close>
  raises), and the passing of time (the clock never runs backwards).
\<close>

datatype event =
    Create string string WorkflowConfig
  | Cancel string
  | CancelResume string
  | Work nat reply
  | Cleanup "string list"
  | Tick real

definition cleanup_cycle :: "Config \<Rightarrow> string list \<Rightarrow> WorkflowServer \<Rightarrow> WorkflowServer" where
  "cleanup_cycle cfg bad s =
     (case cleanup_dirs cfg (clock s) bad (upload_files s) (output_files s) of
        (uploads', outputs') \<Rightarrow> s\<lparr> upload_files := uploads', output_files := outputs' \<rparr>)"

fun step :: "Config \<Rightarrow> WorkflowServer \<Rightarrow> event \<Rightarrow> WorkflowServer" where
  "step cfg s (Create job_id fname wcfg) = create_job cfg job_id fname wcfg s"
| "step cfg s (Cancel job_id) = fst (cancel_job job_id s)"
| "step cfg s (CancelResume job_id) =
     (if job_id \<in> set (suspended_cancels s)
      then fst (cancel_job_finish job_id
                  (s\<lparr> suspended_cancels := remove1 job_id (suspended_cancels s) \<rparr>))
      else s)"
| "step cfg s (Work w r) = worker_step cfg w r s"
| "step cfg s (Cleanup bad) = (if cleanup_old_files cfg then cleanup_cycle cfg bad s else s)"
| "step cfg s (Tick d) = (if 0 \<le> d then s\<lparr> clock := clock s + d \<rparr> else s)"

definition run :: "Config \<Rightarrow> WorkflowServer \<Rightarrow> event list \<Rightarrow> WorkflowServer" where
  "run cfg s evs = foldl (step cfg) s evs"

text \<open>The identifiers that the \<open>create_job\<close> calls of a run draw from \<open>uuid.uuid4()\<close>.\<close>

fun created :: "event list \<Rightarrow> string list" where
  "created [] = []"
| "created (Create job_id fname wcfg # evs) = job_id # created evs"
| "created (ev # evs) = created evs"

text \<open>A configuration of a job, for the example runs.\<close>

definition example_config :: WorkflowConfig where
  "example_config = \<lparr> positive_prompt = ''a cat'', negative_prompt = ''blurry'', seed = 88888,
       randomize_seed = True, fps = 16, duration = 5, format = MP4 \<rparr>"

text \<open>Example runs on the configuration of the source, with one worker.\<close>

definition failed_once :: "event list" where
  "failed_once =
     [Create ''job-1'' ''cat.png'' example_config, Work 1 Resume, Work 1 Resume,
      Work 1 (Returned ''cat.png''), Work 1 (Raised ''500: Queue failed'')]"

definition retried :: "event list" where
  "retried = failed_once @ [Tick 5, Work 1 Resume, Work 1 Resume, Work 1 Resume]"

definition retried_completed :: "event list" where
  "retried_completed = retried @
     [Work 1 (Returned ''cat.png''), Work 1 (Returned ''prompt-1''), Tick 2,
      Work 1 (HistoryReply True), Work 1 (Returned ''out.mp4''), Work 1 Resume]"

definition cancel_running :: "event list" where
  "cancel_running =
     [Create ''job-1'' ''cat.png'' example_config, Create ''job-2'' ''dog.png'' example_config,
      Work 1 Resume, Work 1 Resume, Cancel ''job-1'', Work 1 Resume]"

definition failing_attempt :: "event list" where
  "failing_attempt =
     [Work 1 Resume, Work 1 (Raised ''500: Upload failed''), Tick 5, Work 1 Resume, Work 1 Resume]"

definition three_failures :: "event list" where
  "three_failures =
     [Create ''job-1'' ''cat.png'' example_config, Work 1 Resume] @
     failing_attempt @ failing_attempt @ failing_attempt @ [Work 1 Resume]"

definition upload_always_fails :: "event list" where
  "upload_always_fails =
     [Create ''job-1'' ''cat.png'' example_config, Work 1 Resume] @
     failing_attempt @ failing_attempt @ failing_attempt @ failing_attempt @
     failing_attempt @ failing_attempt"

section \<open>Invariants\<close>

text \<open>
  An identifier is in the queue at most once, only identifiers of \<open>jobs\<close> are queued, a job
  whose task is not done is not queued, and no two workers run the same job.
\<close>

definition inv_struct :: "WorkflowServer \<Rightarrow> bool" where
  "inv_struct s \<longleftrightarrow>
     distinct (job_queue s) \<and> set (job_queue s) \<subseteq> dom (jobs s) \<and>
     (\<forall>w st j. workers s w = Some st \<longrightarrow> running st = Some j \<longrightarrow>
        j \<notin> set (job_queue s) \<and> j \<in> dom (jobs s)) \<and>
     (\<forall>w w' st st' j. workers s w = Some st \<longrightarrow> workers s w' = Some st' \<longrightarrow>
        running st = Some j \<longrightarrow> running st' = Some j \<longrightarrow> w = w')"

text \<open>
  A job has a result path exactly when it is completed, and a completed job is neither queued
  nor run by a worker.
\<close>

definition inv_done :: "WorkflowServer \<Rightarrow> bool" where
  "inv_done s \<longleftrightarrow>
     (\<forall>jid job. jobs s jid = Some job \<longrightarrow>
        (result_path job \<noteq> None \<longleftrightarrow> status job = COMPLETED) \<and>
        (status job = COMPLETED \<longrightarrow>
           jid \<notin> set (job_queue s) \<and>
           (\<forall>w st. workers s w = Some st \<longrightarrow> running st \<noteq> Some jid)))"

text \<open>
  What a suspension point of \<open>_process_job\<close> says about the job: the progress written
  before it (in the polling loop, a bound by the time elapsed since \<open>start_time\<close>), and the
  status \<open>FAILED\<close> during the retry sleep.
\<close>

fun pc_ok :: "real \<Rightarrow> wstate \<Rightarrow> Job \<Rightarrow> bool" where
  "pc_ok c (AwaitUpload j) job = (progress job = 10)"
| "pc_ok c (AwaitQueue j) job = (progress job = 40)"
| "pc_ok c (AwaitHistory j p t) job =
     (t \<le> c \<and> 50 \<le> progress job \<and> progress job \<le> 50 + min 30 ((c - t) / max_wait * 30))"
| "pc_ok c (PollSleep j p t) job =
     (t \<le> c \<and> 50 \<le> progress job \<and> progress job \<le> 50 + min 30 ((c - t) / max_wait * 30))"
| "pc_ok c (AwaitDownload j p) job = (progress job = 80)"
| "pc_ok c (RetrySleep j) job = (status job = FAILED)"
| "pc_ok c st job = True"

definition inv_pc :: "WorkflowServer \<Rightarrow> bool" where
  "inv_pc s \<longleftrightarrow>
     (\<forall>w st j job. workers s w = Some st \<longrightarrow> running st = Some j \<longrightarrow> jobs s j = Some job \<longrightarrow>
        pc_ok (clock s) st job)"

definition inv :: "WorkflowServer \<Rightarrow> bool" where
  "inv s \<longleftrightarrow> inv_struct s \<and> inv_done s \<and> inv_pc s"

text \<open>The retry counter of every job lies between 0 and \<open>max_retries\<close>.\<close>

definition retry_ok :: "Config \<Rightarrow> WorkflowServer \<Rightarrow> bool" where
  "retry_ok cfg s \<longleftrightarrow>
     (\<forall>j job. jobs s j = Some job \<longrightarrow> 0 \<le> retry_count job \<and> retry_count job \<le> max_retries cfg)"


text \<open>The job is neither queued nor run by a worker whose task is not done.\<close>

definition at_rest :: "WorkflowServer \<Rightarrow> string \<Rightarrow> bool" where
  "at_rest s j \<longleftrightarrow>
     j \<notin> set (job_queue s) \<and> (\<forall>w st. workers s w = Some st \<longrightarrow> running st \<noteq> Some j)"

section \<open>Workflow construction and cleanup\<close>

lemma generate_workflow_Inr:
  "generate_workflow tf now f c = Inr flow \<Longrightarrow> flow = get_default_workflow"
  by (auto simp: generate_workflow_def Let_def split: template_file.splits)

text \<open>
  Claim C10. The workflow built for submission does not depend on the job's configuration
  nor on the name of the uploaded image: whenever \<open>_generate_workflow\<close> returns, it
  returns the built-in default workflow (with the template file absent or readable it always
  returns), any two configurations, file names and clock readings give the same result, and
  the call of \<open>_queue_workflow\<close> that follows an upload submits that default workflow.
\<close>

theorem generate_workflow_ignores_config:
  "generate_workflow Absent now f c = Inr get_default_workflow \<and>
   generate_workflow (Readable content) now f c = Inr get_default_workflow \<and>
   generate_workflow tf now f c = generate_workflow tf now' f' c' \<and>
   backend_calls (upload_returned cfg w j name s)
     \<in> {backend_calls s, backend_calls s @ [QueueWorkflow get_default_workflow]}"
proof -
  have "backend_calls (fail_attempt cfg w j e s') = backend_calls s'" for e s'
    by (simp add: fail_attempt_def Let_def split: option.splits)
  then have "backend_calls (upload_returned cfg w j name s)
     \<in> {backend_calls s, backend_calls s @ [QueueWorkflow get_default_workflow]}"
    by (auto simp: upload_returned_def Let_def dest: generate_workflow_Inr split: option.splits sum.splits)
  then show ?thesis
    by (simp add: generate_workflow_def Let_def split: template_file.splits)
qed

lemma sweep_keeps:
  "filter (\<lambda>f. \<not> snd f < c) (fst (sweep c bad fs)) = filter (\<lambda>f. \<not> snd f < c) fs"
  by (induction c bad fs rule: sweep.induct) (auto split: prod.splits)

lemma sweep_subset: "set (fst (sweep c bad fs)) \<subseteq> set fs"
proof (induction c bad fs rule: sweep.induct)
  case (1 cutoff_time bad)
  show ?case by simp
next
  case (2 cutoff_time bad p mtime fs)
  show ?case
  proof (cases "p \<in> set bad")
    case True
    then show ?thesis by simp
  next
    case bad: False
    show ?thesis
    proof (cases "mtime < cutoff_time")
      case True
      with 2 bad show ?thesis by auto
    next
      case False
      with 2 bad show ?thesis by (auto split: prod.splits)
    qed
  qed
qed

text \<open>
  Claim C9. One cycle of the cleanup task leaves \<open>jobs\<close>, the queue, the task table
  and the workers as they are; every file that is not older than the clock reading minus
  \<open>cleanup_days\<close> days is still there afterwards, in both directories; no file appears;
  and the files left do not depend on \<open>jobs\<close>.
\<close>

theorem cleanup_frame:
  "jobs (step cfg s (Cleanup bad)) = jobs s \<and>
   job_queue (step cfg s (Cleanup bad)) = job_queue s \<and>
   processing_tasks (step cfg s (Cleanup bad)) = processing_tasks s \<and>
   workers (step cfg s (Cleanup bad)) = workers s \<and>
   filter (\<lambda>f. \<not> snd f < clock s - real_of_int (cleanup_days cfg * 24 * 3600))
     (upload_files (step cfg s (Cleanup bad))) =
   filter (\<lambda>f. \<not> snd f < clock s - real_of_int (cleanup_days cfg * 24 * 3600)) (upload_files s) \<and>
   filter (\<lambda>f. \<not> snd f < clock s - real_of_int (cleanup_days cfg * 24 * 3600))
     (output_files (step cfg s (Cleanup bad))) =
   filter (\<lambda>f. \<not> snd f < clock s - real_of_int (cleanup_days cfg * 24 * 3600)) (output_files s) \<and>
   set (upload_files (step cfg s (Cleanup bad))) \<subseteq> set (upload_files s) \<and>
   set (output_files (step cfg s (Cleanup bad))) \<subseteq> set (output_files s) \<and>
   upload_files (step cfg (s\<lparr> jobs := js \<rparr>) (Cleanup bad)) = upload_files (step cfg s (Cleanup bad)) \<and>
   output_files (step cfg (s\<lparr> jobs := js \<rparr>) (Cleanup bad)) = output_files (step cfg s (Cleanup bad))"
proof -
  let ?c = "clock s - real_of_int (cleanup_days cfg * 24 * 3600)"
  obtain u ok where u: "sweep ?c bad (upload_files s) = (u, ok)" by (cases "sweep ?c bad (upload_files s)")
  have ku: "filter (\<lambda>f. \<not> snd f < ?c) u = filter (\<lambda>f. \<not> snd f < ?c) (upload_files s)"
    and su: "set u \<subseteq> set (upload_files s)"
    using sweep_keeps [of ?c bad "upload_files s"] sweep_subset [of ?c bad "upload_files s"] u by simp_all
  note ko = sweep_keeps [of ?c bad "output_files s"] and so = sweep_subset [of ?c bad "output_files s"]
  show ?thesis
    using u ku su ko so
    by (simp add: cleanup_cycle_def cleanup_dirs_def Let_def)
qed

section \<open>Each job is queued or run at most once\<close>

lemma dequeue_props:
  "dequeue q js = (r, q') \<Longrightarrow>
     set q' \<subseteq> set q \<and> (distinct q \<longrightarrow> distinct q') \<and>
     (\<forall>j. r = Some j \<longrightarrow> j \<in> set q \<and> j \<in> dom js \<and> (distinct q \<longrightarrow> j \<notin> set q'))"
  by (induction q js arbitrary: r q' rule: dequeue.induct) (auto split: option.splits)

lemma struct_create:
  "inv_struct s \<Longrightarrow> job_id \<notin> dom (jobs s) \<Longrightarrow> inv_struct (create_job cfg job_id fname wcfg s)"
  unfolding inv_struct_def create_job_def Let_def
  by (auto simp: subset_iff)

lemma struct_cancel_task: "inv_struct s \<Longrightarrow> inv_struct (cancel_task j s)"
  unfolding inv_struct_def cancel_task_def
  by (auto split: option.splits)

lemma struct_fail:
  "inv_struct s \<Longrightarrow> workers s w = Some st \<Longrightarrow> running st = Some j \<Longrightarrow> inv_struct (fail_attempt cfg w j e s)"
  unfolding inv_struct_def fail_attempt_def Let_def
  by (auto split: option.splits)

lemma struct_cancel: "inv_struct s \<Longrightarrow> inv_struct (fst (cancel_job j s))"
proof -
  assume a: "inv_struct s"
  have b: "\<And>job t. jobs s j = Some job \<Longrightarrow> inv_struct (s\<lparr> jobs := (jobs s)(j \<mapsto> job\<lparr> status := t \<rparr>) \<rparr>)"
    using a unfolding inv_struct_def by (auto simp: subset_iff)
  have c: "\<And>s' x y. inv_struct s' \<Longrightarrow> inv_struct (s'\<lparr> backend_calls := x, suspended_cancels := y \<rparr>)"
    unfolding inv_struct_def by simp
  show ?thesis
    using a b c struct_cancel_task
    by (auto simp: cancel_job_def cancel_job_finish_def Let_def split: option.splits)
qed

lemma struct_cancel_resume:
  "inv_struct s \<Longrightarrow> inv_struct (step cfg s (CancelResume j))"
proof -
  assume a: "inv_struct s"
  have "inv_struct (s\<lparr> suspended_cancels := remove1 j (suspended_cancels s) \<rparr>)"
    using a unfolding inv_struct_def by simp
  then show ?thesis using a by (simp add: cancel_job_finish_def struct_cancel_task)
qed

lemma struct_begin:
  "inv_struct s \<Longrightarrow> workers s w = Some (Spawned j) \<Longrightarrow> inv_struct (begin_attempt w j s)"
  unfolding inv_struct_def begin_attempt_def
  by (auto split: option.splits)

lemma struct_upload:
  "inv_struct s \<Longrightarrow> workers s w = Some (AwaitUpload j) \<Longrightarrow> inv_struct (upload_returned cfg w j n s)"
proof -
  assume a: "inv_struct s" and b: "workers s w = Some (AwaitUpload j)"
  have c: "\<And>job. jobs s j = Some job \<Longrightarrow> inv_struct (s\<lparr> jobs := (jobs s)(j \<mapsto> job\<lparr> progress := 30 \<rparr>) \<rparr>)"
    using a unfolding inv_struct_def by (auto simp: subset_iff)
  have d: "\<And>job wf. jobs s j = Some job \<Longrightarrow>
     inv_struct (s\<lparr> jobs := (jobs s)(j \<mapsto> job\<lparr> progress := 30, progress := 40, status := PROCESSING \<rparr>),
                     backend_calls := backend_calls s @ [QueueWorkflow wf],
                     workers := (workers s)(w \<mapsto> AwaitQueue j) \<rparr>)"
    using a b unfolding inv_struct_def by (auto simp: subset_iff)
  show ?thesis
    using a b c d struct_fail [of _ w "AwaitUpload j" j cfg]
    by (auto simp: upload_returned_def Let_def split: option.splits sum.splits)
qed

lemma struct_poll:
  "inv_struct s \<Longrightarrow> workers s w = Some st \<Longrightarrow> running st = Some j \<Longrightarrow> inv_struct (poll cfg w j p t s)"
proof -
  assume a: "inv_struct s" and b: "workers s w = Some st" "running st = Some j"
  have "inv_struct (s\<lparr> backend_calls := backend_calls s @ [History p],
              workers := (workers s)(w \<mapsto> AwaitHistory j p t) \<rparr>)"
    using a b unfolding inv_struct_def by auto
  then show ?thesis using a b by (simp add: poll_def struct_fail)
qed

lemma struct_queue:
  "inv_struct s \<Longrightarrow> workers s w = Some (AwaitQueue j) \<Longrightarrow> inv_struct (queue_returned cfg w j p s)"
proof -
  assume a: "inv_struct s" and b: "workers s w = Some (AwaitQueue j)"
  have c: "\<And>job. jobs s j = Some job \<Longrightarrow> inv_struct (s\<lparr> jobs := (jobs s)(j \<mapsto> job\<lparr> comfy_prompt_id := Some p, progress := 50 \<rparr>) \<rparr>)"
    using a unfolding inv_struct_def by (auto simp: subset_iff)
  show ?thesis
    using a b c by (auto simp: queue_returned_def split: option.splits intro!: struct_poll [where st = "AwaitQueue j"])
qed

lemma struct_history:
  "inv_struct s \<Longrightarrow> workers s w = Some (AwaitHistory j p t) \<Longrightarrow> inv_struct (history_returned w j p t b s)"
  unfolding inv_struct_def history_returned_def Let_def
  by (auto split: option.splits)

lemma struct_download:
  "inv_struct s \<Longrightarrow> workers s w = Some (AwaitDownload j p) \<Longrightarrow> inv_struct (download_returned cfg w j f s)"
  unfolding inv_struct_def download_returned_def Let_def
  by (auto split: option.splits)

lemma struct_retry:
  "inv_struct s \<Longrightarrow> workers s w = Some (RetrySleep j) \<Longrightarrow> inv_struct (retry_woke w j s)"
  unfolding inv_struct_def retry_woke_def queue_job_def Let_def
  by (auto split: option.splits)

lemma struct_loop:
  "inv_struct s \<Longrightarrow> workers s w = Some st \<Longrightarrow> running st = None \<Longrightarrow> inv_struct (worker_loop w s)"
proof -
  assume a: "inv_struct s" and b: "workers s w = Some st" "running st = None"
  obtain r q where d: "dequeue (job_queue s) (jobs s) = (r, q)" by (cases "dequeue (job_queue s) (jobs s)")
  note e = dequeue_props [OF d]
  show ?thesis
  proof (cases r)
    case None
    then show ?thesis using a b d e unfolding inv_struct_def worker_loop_def
      by (auto simp: subset_iff)
  next
    case (Some j)
    then show ?thesis using a b d e unfolding inv_struct_def worker_loop_def
      by (auto simp: subset_iff)
  qed
qed

lemma struct_resume:
  "inv_struct s \<Longrightarrow> workers s w = Some (Finishing j) \<Longrightarrow> inv_struct (worker_resume w j s)"
proof -
  assume a: "inv_struct s" and b: "workers s w = Some (Finishing j)"
  have "inv_struct (s\<lparr> processing_tasks := (processing_tasks s)(j := None) \<rparr>)"
    using a unfolding inv_struct_def by simp
  then show ?thesis using b unfolding worker_resume_def
    by (intro struct_loop [where st = "Finishing j"]) simp_all
qed

lemma struct_cancelled:
  "inv_struct s \<Longrightarrow> inv_struct (worker_cancelled w j s)"
  unfolding inv_struct_def worker_cancelled_def
  by (auto split: option.splits)

lemma struct_react:
  "inv_struct s \<Longrightarrow> workers s w = Some st \<Longrightarrow> inv_struct (react cfg w st r s)"
  by (cases "(cfg, w, st, r, s)" rule: react.cases)
     (simp_all add: struct_loop struct_begin struct_upload struct_fail struct_queue struct_history
        struct_poll struct_download struct_retry struct_resume struct_cancelled)

lemma struct_cleanup: "inv_struct s \<Longrightarrow> inv_struct (cleanup_cycle cfg bad s)"
  unfolding inv_struct_def cleanup_cycle_def by (simp split: prod.splits)

lemma struct_step:
  "inv_struct s \<Longrightarrow> set (created [ev]) \<inter> dom (jobs s) = {} \<Longrightarrow> inv_struct (step cfg s ev)"
proof (cases ev)
  case (Tick d)
  assume "inv_struct s" then show ?thesis using Tick unfolding inv_struct_def by simp
qed (simp_all add: struct_create struct_cancel struct_cancel_resume struct_react struct_cleanup worker_step_def
      del: step.simps(3) split: option.splits)

section \<open>A completed job is at rest\<close>

lemma done_running:
  assumes "inv_done s" "workers s w = Some st" "running st = Some j" "jobs s j = Some job"
  shows "status job \<noteq> COMPLETED \<and> result_path job = None"
proof -
  from assms(1,4) have a: "(result_path job \<noteq> None \<longleftrightarrow> status job = COMPLETED)"
    and b: "status job = COMPLETED \<longrightarrow> (\<forall>w st. workers s w = Some st \<longrightarrow> running st \<noteq> Some j)"
    unfolding inv_done_def by blast+
  from b assms(2,3) have "status job \<noteq> COMPLETED" by blast
  with a show ?thesis by blast
qed

lemma done_cong:
  "jobs s' = jobs s \<Longrightarrow> job_queue s' = job_queue s \<Longrightarrow> workers s' = workers s \<Longrightarrow>
   inv_done s' = inv_done s"
  by (simp add: inv_done_def)

lemma done_effect:
  assumes "inv_done s" "jobs s j = Some job" "workers s w = Some st" "running st = Some j"
    and "jobs s' = (jobs s)(j \<mapsto> job')" "job_queue s' = job_queue s"
    and "workers s' = (workers s)(w \<mapsto> st')" "running st' = Some j \<or> running st' = None"
    and "result_path job' = None" "status job' \<noteq> COMPLETED"
  shows "inv_done s'"
  unfolding inv_done_def
proof (intro allI impI)
  fix jid jb assume h: "jobs s' jid = Some jb"
  show "(result_path jb \<noteq> None \<longleftrightarrow> status jb = COMPLETED) \<and>
        (status jb = COMPLETED \<longrightarrow> jid \<notin> set (job_queue s') \<and>
           (\<forall>w st. workers s' w = Some st \<longrightarrow> running st \<noteq> Some jid))"
  proof (cases "jid = j")
    case True
    with h assms(5) have "jb = job'" by simp
    with assms(9,10) show ?thesis by simp
  next
    case False
    with h assms(5) have k: "jobs s jid = Some jb" by simp
    with assms(1) have a: "(result_path jb \<noteq> None \<longleftrightarrow> status jb = COMPLETED)"
      and b: "status jb = COMPLETED \<longrightarrow> jid \<notin> set (job_queue s) \<and>
               (\<forall>w st. workers s w = Some st \<longrightarrow> running st \<noteq> Some jid)"
      unfolding inv_done_def by blast+
    have "\<forall>w0 st0. workers s' w0 = Some st0 \<longrightarrow> running st0 \<noteq> Some jid"
      if "status jb = COMPLETED"
    proof (intro allI impI)
      fix w0 st0 assume m: "workers s' w0 = Some st0"
      show "running st0 \<noteq> Some jid"
      proof (cases "w0 = w")
        case True
        with m assms(7) have "st0 = st'" by simp
        with assms(8) False show ?thesis by auto
      next
        case False
        with m assms(7) have "workers s w0 = Some st0" by simp
        with b that show ?thesis by blast
      qed
    qed
    with a b assms(6) show ?thesis by simp
  qed
qed

lemma done_create:
  "inv_done s \<Longrightarrow> job_id \<notin> dom (jobs s) \<Longrightarrow> inv_done (create_job cfg job_id fname wcfg s)"
  unfolding inv_done_def create_job_def Let_def
  by auto

lemma done_cancel_task: "inv_done s \<Longrightarrow> inv_done (cancel_task j s)"
proof (cases "processing_tasks s j")
  case None
  assume "inv_done s" with None show ?thesis by (simp add: cancel_task_def)
next
  case (Some w)
  assume a: "inv_done s"
  show ?thesis
  proof (cases "workers s w")
    case None
    with a Some show ?thesis by (simp add: cancel_task_def)
  next
    case st: (Some st)
    show ?thesis
    proof (cases "running st = Some j")
      case True
      have "inv_done (s\<lparr> workers := (workers s)(w \<mapsto> Cancelling j) \<rparr>)"
        unfolding inv_done_def
      proof (intro allI impI)
        fix jid jb assume "jobs (s\<lparr> workers := (workers s)(w \<mapsto> Cancelling j) \<rparr>) jid = Some jb"
        then have k: "jobs s jid = Some jb" by simp
        with a have p: "(result_path jb \<noteq> None \<longleftrightarrow> status jb = COMPLETED)"
          and q: "status jb = COMPLETED \<longrightarrow> jid \<notin> set (job_queue s) \<and>
               (\<forall>w st. workers s w = Some st \<longrightarrow> running st \<noteq> Some jid)"
          unfolding inv_done_def by blast+
        from q st True have "status jb = COMPLETED \<longrightarrow> jid \<noteq> j" by blast
        with p q show "(result_path jb \<noteq> None \<longleftrightarrow> status jb = COMPLETED) \<and>
          (status jb = COMPLETED \<longrightarrow>
             jid \<notin> set (job_queue (s\<lparr> workers := (workers s)(w \<mapsto> Cancelling j) \<rparr>)) \<and>
             (\<forall>w' st'. workers (s\<lparr> workers := (workers s)(w \<mapsto> Cancelling j) \<rparr>) w' = Some st' \<longrightarrow>
                running st' \<noteq> Some jid))"
          by auto
      qed
      with Some st True show ?thesis by (simp add: cancel_task_def)
    next
      case False
      with a Some st show ?thesis by (simp add: cancel_task_def)
    qed
  qed
qed

lemma done_fail:
  assumes a: "inv_done s" and b: "workers s w = Some st" "running st = Some j"
  shows "inv_done (fail_attempt cfg w j e s)"
proof (cases "jobs s j")
  case None
  with a show ?thesis by (simp add: fail_attempt_def)
next
  case (Some job)
  note c = done_running [OF a b Some]
  show ?thesis
  proof (cases "retry_count job < max_retries cfg")
    case True
    show ?thesis
      by (rule done_effect [OF a Some b, where st' = "RetrySleep j"
            and job' = "job\<lparr> status := FAILED, error_message := Some e, retry_count := retry_count job + 1 \<rparr>"])
         (use Some True c in \<open>simp_all add: fail_attempt_def\<close>)
  next
    case False
    show ?thesis
      by (rule done_effect [OF a Some b, where st' = "Finishing j"
            and job' = "job\<lparr> status := FAILED, error_message := Some e \<rparr>"])
         (use Some False c in \<open>simp_all add: fail_attempt_def\<close>)
  qed
qed

lemma done_status:
  assumes a: "inv_done s" and b: "jobs s j = Some job" "status job \<noteq> COMPLETED"
    "status job' \<noteq> COMPLETED" "result_path job' = result_path job"
  shows "inv_done (s\<lparr> jobs := (jobs s)(j \<mapsto> job') \<rparr>)"
  using a b unfolding inv_done_def by auto

lemma done_cancel: "inv_done s \<Longrightarrow> inv_done (fst (cancel_job j s))"
proof -
  assume a: "inv_done s"
  have b: "\<And>job. jobs s j = Some job \<Longrightarrow> status job \<noteq> COMPLETED \<Longrightarrow>
            inv_done (s\<lparr> jobs := (jobs s)(j \<mapsto> job\<lparr> status := CANCELLED \<rparr>) \<rparr>)"
    using a by (rule done_status) simp_all
  have c: "\<And>s' x y. inv_done s' \<Longrightarrow> inv_done (s'\<lparr> backend_calls := x, suspended_cancels := y \<rparr>)"
    by (subst done_cong) simp_all
  show ?thesis
    using a b c done_cancel_task
    by (auto simp: cancel_job_def cancel_job_finish_def Let_def split: option.splits)
qed

lemma done_cancel_resume:
  "inv_done s \<Longrightarrow> inv_done (step cfg s (CancelResume j))"
proof -
  assume a: "inv_done s"
  have "inv_done (s\<lparr> suspended_cancels := remove1 j (suspended_cancels s) \<rparr>)"
    using a by (subst done_cong) simp_all
  then show ?thesis using a by (simp add: cancel_job_finish_def done_cancel_task)
qed

lemma done_begin:
  assumes a: "inv_done s" and b: "workers s w = Some (Spawned j)"
  shows "inv_done (begin_attempt w j s)"
proof (cases "jobs s j")
  case None
  with a show ?thesis by (simp add: begin_attempt_def)
next
  case (Some job)
  have r: "running (Spawned j) = Some j" by simp
  note c = done_running [OF a b r Some]
  show ?thesis
    by (rule done_effect [OF a Some b r, where st' = "AwaitUpload j"
          and job' = "job\<lparr> status := UPLOADING, started_at := Some (clock s), progress := 10 \<rparr>"])
       (use Some c in \<open>simp_all add: begin_attempt_def\<close>)
qed

lemma done_sched:
  assumes a: "inv_done s" and js: "jobs s' = jobs s"
    and qs: "set (job_queue s') \<subseteq> set (job_queue s) \<union> A"
    and ws: "workers s' = (workers s)(w \<mapsto> st')"
    and n: "\<And>j job. running st' = Some j \<or> j \<in> A \<Longrightarrow> jobs s j = Some job \<Longrightarrow> status job \<noteq> COMPLETED"
  shows "inv_done s'"
  unfolding inv_done_def
proof (intro allI impI)
  fix jid jb assume h: "jobs s' jid = Some jb"
  with js have k: "jobs s jid = Some jb" by simp
  with a have x: "(result_path jb \<noteq> None \<longleftrightarrow> status jb = COMPLETED)"
    and y: "status jb = COMPLETED \<longrightarrow> jid \<notin> set (job_queue s) \<and>
               (\<forall>w st. workers s w = Some st \<longrightarrow> running st \<noteq> Some jid)"
    unfolding inv_done_def by blast+
  have "running st0 \<noteq> Some jid" if "workers s' w0 = Some st0" "status jb = COMPLETED" for w0 st0
  proof (cases "w0 = w")
    case True
    with that ws have "st0 = st'" by simp
    with n [of jid jb] k that show ?thesis by blast
  next
    case False
    with that ws have "workers s w0 = Some st0" by simp
    with y that show ?thesis by blast
  qed
  moreover have "jid \<notin> set (job_queue s')" if "status jb = COMPLETED"
  proof
    assume "jid \<in> set (job_queue s')"
    with qs have "jid \<in> set (job_queue s) \<or> jid \<in> A" by blast
    with y that n [of jid jb] k show False by blast
  qed
  ultimately show "(result_path jb \<noteq> None \<longleftrightarrow> status jb = COMPLETED) \<and>
        (status jb = COMPLETED \<longrightarrow> jid \<notin> set (job_queue s') \<and>
           (\<forall>w st. workers s' w = Some st \<longrightarrow> running st \<noteq> Some jid))"
    using x by blast
qed

lemma done_queued:
  assumes "inv_done s" "j \<in> set (job_queue s)" "jobs s j = Some job"
  shows "status job \<noteq> COMPLETED"
  using assms unfolding inv_done_def by blast

lemma done_upload:
  assumes a: "inv_done s" and b: "workers s w = Some (AwaitUpload j)"
  shows "inv_done (upload_returned cfg w j n s)"
proof (cases "jobs s j")
  case None
  with a show ?thesis by (simp add: upload_returned_def)
next
  case (Some job)
  have r: "running (AwaitUpload j) = Some j" by simp
  note c = done_running [OF a b r Some]
  show ?thesis
  proof (cases "generate_workflow (template s) (clock s) n (config job)")
    case (Inl e)
    have "inv_done (s\<lparr> jobs := (jobs s)(j \<mapsto> job\<lparr> progress := 30 \<rparr>) \<rparr>)"
      by (rule done_status [OF a Some]) (use c in simp_all)
    then have "inv_done (fail_attempt cfg w j e (s\<lparr> jobs := (jobs s)(j \<mapsto> job\<lparr> progress := 30 \<rparr>) \<rparr>))"
      using b by (intro done_fail [where st = "AwaitUpload j"]) simp_all
    with Some Inl show ?thesis by (simp add: upload_returned_def)
  next
    case (Inr wf)
    show ?thesis
      by (rule done_effect [OF a Some b r, where st' = "AwaitQueue j"
            and job' = "job\<lparr> progress := 40, status := PROCESSING \<rparr>"])
         (use Some Inr c in \<open>simp_all add: upload_returned_def\<close>)
  qed
qed

lemma done_poll:
  assumes a: "inv_done s" and b: "workers s w = Some st" "running st = Some j"
  shows "inv_done (poll cfg w j p t s)"
proof (cases "clock s - t < max_wait")
  case False
  then show ?thesis using done_fail [OF a b] by (simp add: poll_def)
next
  case True
  show ?thesis
  proof (cases "jobs s j")
    case None
    show ?thesis
      by (rule done_sched [OF a, where A = "{}" and w = w and st' = "AwaitHistory j p t"])
         (use None True in \<open>auto simp: poll_def\<close>)
  next
    case (Some job)
    note c = done_running [OF a b Some]
    show ?thesis
      by (rule done_effect [OF a Some b, where st' = "AwaitHistory j p t" and job' = job])
         (use Some True c in \<open>simp_all add: poll_def map_upd_triv\<close>)
  qed
qed

lemma done_queue:
  assumes a: "inv_done s" and b: "workers s w = Some (AwaitQueue j)"
  shows "inv_done (queue_returned cfg w j p s)"
proof (cases "jobs s j")
  case None
  with a show ?thesis by (simp add: queue_returned_def)
next
  case (Some job)
  have r: "running (AwaitQueue j) = Some j" by simp
  note c = done_running [OF a b r Some]
  have "inv_done (s\<lparr> jobs := (jobs s)(j \<mapsto> job\<lparr> comfy_prompt_id := Some p, progress := 50 \<rparr>) \<rparr>)"
    by (rule done_status [OF a Some]) (use c in simp_all)
  then have "inv_done (poll cfg w j p (clock s)
       (s\<lparr> jobs := (jobs s)(j \<mapsto> job\<lparr> comfy_prompt_id := Some p, progress := 50 \<rparr>) \<rparr>))"
    using b by (intro done_poll [where st = "AwaitQueue j"]) simp_all
  with Some show ?thesis by (simp add: queue_returned_def)
qed

lemma done_history:
  assumes a: "inv_done s" and b: "workers s w = Some (AwaitHistory j p t)"
  shows "inv_done (history_returned w j p t c s)"
proof (cases "jobs s j")
  case None
  with a show ?thesis by (simp add: history_returned_def)
next
  case (Some job)
  have r: "running (AwaitHistory j p t) = Some j" by simp
  note d = done_running [OF a b r Some]
  show ?thesis
  proof (cases c)
    case True
    show ?thesis
      by (rule done_effect [OF a Some b r, where st' = "AwaitDownload j p"
            and job' = "job\<lparr> progress := 80 \<rparr>"])
         (use Some True d in \<open>simp_all add: history_returned_def\<close>)
  next
    case False
    show ?thesis
      by (rule done_effect [OF a Some b r, where st' = "PollSleep j p t"
            and job' = "job\<lparr> progress := 50 + min 30 ((clock s - t) / max_wait * 30) \<rparr>"])
         (use Some False d in \<open>simp_all add: history_returned_def\<close>)
  qed
qed

lemma done_download:
  assumes a: "inv_done s" and i: "inv_struct s" and b: "workers s w = Some (AwaitDownload j p)"
  shows "inv_done (download_returned cfg w j f s)"
proof (cases "jobs s j")
  case None
  with a show ?thesis by (simp add: download_returned_def)
next
  case (Some job)
  let ?s' = "download_returned cfg w j f s"
  have r: "running (AwaitDownload j p) = Some j" by simp
  from i b have q: "j \<notin> set (job_queue s)"
    and u: "\<And>w' st'. workers s w' = Some st' \<Longrightarrow> running st' = Some j \<Longrightarrow> w' = w"
    unfolding inv_struct_def using r by blast+
  have js: "jobs ?s' = (jobs s)(j \<mapsto> job\<lparr> result_path := Some (output_dir cfg @ ''/'' @ ident job @ ''_'' @ f),
               progress := 100, status := COMPLETED, completed_at := Some (clock s) \<rparr>)"
    and qs: "job_queue ?s' = job_queue s"
    and ws: "workers ?s' = (workers s)(w \<mapsto> Finishing j)"
    using Some by (simp_all add: download_returned_def Let_def)
  show ?thesis
    unfolding inv_done_def
  proof (intro allI impI)
    fix jid jb assume h: "jobs ?s' jid = Some jb"
    show "(result_path jb \<noteq> None \<longleftrightarrow> status jb = COMPLETED) \<and>
        (status jb = COMPLETED \<longrightarrow> jid \<notin> set (job_queue ?s') \<and>
           (\<forall>w st. workers ?s' w = Some st \<longrightarrow> running st \<noteq> Some jid))"
    proof (cases "jid = j")
      case True
      with h js have e: "result_path jb \<noteq> None" "status jb = COMPLETED" by auto
      have "running st0 \<noteq> Some jid" if "workers ?s' w0 = Some st0" for w0 st0
      proof (cases "w0 = w")
        case True
        with that ws show ?thesis by auto
      next
        case False
        with that ws have "workers s w0 = Some st0" by simp
        with u False True show ?thesis by blast
      qed
      with e q qs True show ?thesis by simp
    next
      case False
      with h js have k: "jobs s jid = Some jb" by simp
      with a have x: "(result_path jb \<noteq> None \<longleftrightarrow> status jb = COMPLETED)"
        and y: "status jb = COMPLETED \<longrightarrow> jid \<notin> set (job_queue s) \<and>
               (\<forall>w st. workers s w = Some st \<longrightarrow> running st \<noteq> Some jid)"
        unfolding inv_done_def by blast+
      have "running st0 \<noteq> Some jid" if "workers ?s' w0 = Some st0" "status jb = COMPLETED" for w0 st0
      proof (cases "w0 = w")
        case True
        with that ws show ?thesis by auto
      next
        case False
        with that ws have "workers s w0 = Some st0" by simp
        with y that show ?thesis by blast
      qed
      with x y qs show ?thesis by simp
    qed
  qed
qed

lemma done_retry:
  assumes a: "inv_done s" and b: "workers s w = Some (RetrySleep j)"
  shows "inv_done (retry_woke w j s)"
proof -
  have r: "running (RetrySleep j) = Some j" by simp
  show ?thesis
    by (rule done_sched [OF a, where A = "{j}" and w = w and st' = "Finishing j"])
       (use done_running [OF a b r] in \<open>auto simp: retry_woke_def queue_job_def\<close>)
qed

lemma done_loop:
  assumes a: "inv_done s"
  shows "inv_done (worker_loop w s)"
proof -
  obtain r q where d: "dequeue (job_queue s) (jobs s) = (r, q)" by (cases "dequeue (job_queue s) (jobs s)")
  note e = dequeue_props [OF d]
  show ?thesis
  proof (cases r)
    case None
    show ?thesis
      by (rule done_sched [OF a, where A = "{}" and w = w and st' = Idle])
         (use None d e in \<open>auto simp: worker_loop_def\<close>)
  next
    case (Some j)
    with e have "j \<in> set (job_queue s)" by simp
    note f = done_queued [OF a this]
    show ?thesis
      by (rule done_sched [OF a, where A = "{}" and w = w and st' = "Spawned j"])
         (use Some d e f in \<open>auto simp: worker_loop_def\<close>)
  qed
qed

lemma done_resume:
  "inv_done s \<Longrightarrow> inv_done (worker_resume w j s)"
proof -
  assume a: "inv_done s"
  have "inv_done (s\<lparr> processing_tasks := (processing_tasks s)(j := None) \<rparr>)"
    using a by (subst done_cong) simp_all
  then show ?thesis unfolding worker_resume_def by (rule done_loop)
qed

lemma done_cancelled:
  "inv_done s \<Longrightarrow> inv_done (worker_cancelled w j s)"
  by (rule done_sched [where A = "{}" and w = w and st' = Dead])
     (auto simp: worker_cancelled_def)

lemma done_react:
  "inv_done s \<Longrightarrow> inv_struct s \<Longrightarrow> workers s w = Some st \<Longrightarrow> inv_done (react cfg w st r s)"
  by (cases "(cfg, w, st, r, s)" rule: react.cases)
     (simp_all add: done_loop done_begin done_upload done_fail done_queue done_history
        done_poll done_download done_retry done_resume done_cancelled)

lemma done_cleanup: "inv_done s \<Longrightarrow> inv_done (cleanup_cycle cfg bad s)"
  by (subst done_cong) (simp_all add: cleanup_cycle_def split: prod.splits)

lemma done_step:
  "inv_done s \<Longrightarrow> inv_struct s \<Longrightarrow> set (created [ev]) \<inter> dom (jobs s) = {} \<Longrightarrow> inv_done (step cfg s ev)"
proof (cases ev)
  case (Tick d)
  assume a: "inv_done s"
  have "inv_done (s\<lparr> clock := clock s + d \<rparr>)"
    using a by (subst done_cong [where s = s]) simp_all
  with a Tick show ?thesis by simp
qed (simp_all add: done_create done_cancel done_cancel_resume done_react done_cleanup worker_step_def
      del: step.simps(3) split: option.splits)

section \<open>Progress at each suspension point\<close>

lemma pc_cong:
  "jobs s' = jobs s \<Longrightarrow> clock s' = clock s \<Longrightarrow> workers s' = workers s \<Longrightarrow>
   inv_pc s' = inv_pc s"
  by (simp add: inv_pc_def)

lemma struct_unique:
  "inv_struct s \<Longrightarrow> workers s w = Some st \<Longrightarrow> running st = Some j \<Longrightarrow>
   workers s w' = Some st' \<Longrightarrow> running st' = Some j \<Longrightarrow> w' = w"
  unfolding inv_struct_def by blast

lemma poll_bound_mono:
  fixes c :: real
  assumes "c \<le> c'"
  shows "min 30 ((c - t) / max_wait * 30) \<le> min 30 ((c' - t) / max_wait * 30)"
proof -
  have "(c - t) / max_wait * 30 \<le> (c' - t) / max_wait * 30"
    using assms by (simp add: max_wait_def)
  then show ?thesis by (rule min.mono [OF order_refl])
qed

lemma pc_ok_mono:
  assumes "pc_ok c st job" "c \<le> c'"
  shows "pc_ok c' st job"
proof (cases "(c, st, job)" rule: pc_ok.cases)
  case (3 c0 j p t job0)
  with assms poll_bound_mono [OF assms(2), of t] show ?thesis by auto
next
  case (4 c0 j p t job0)
  with assms poll_bound_mono [OF assms(2), of t] show ?thesis by auto
qed (use assms in auto)

lemma pc_effect:
  assumes a: "inv_pc s" and i: "inv_struct s"
    and b: "workers s w = Some st" "running st = Some j"
    and js: "jobs s' = (jobs s)(j := jb)"
    and ws: "workers s' = (workers s)(w \<mapsto> st')" and cs: "clock s' = clock s"
    and r: "running st' = Some j \<or> running st' = None"
    and ok: "\<And>job'. jb = Some job' \<Longrightarrow> pc_ok (clock s) st' job'"
  shows "inv_pc s'"
  unfolding inv_pc_def
proof (intro allI impI)
  fix w0 st0 j0 job0
  assume h: "workers s' w0 = Some st0" "running st0 = Some j0" "jobs s' j0 = Some job0"
  show "pc_ok (clock s') st0 job0"
  proof (cases "w0 = w")
    case True
    with h ws have "st0 = st'" by simp
    with h r have "j0 = j" by auto
    with h js have "jb = Some job0" by simp
    with \<open>st0 = st'\<close> ok cs show ?thesis by simp
  next
    case False
    with h ws have k: "workers s w0 = Some st0" by simp
    have "j0 \<noteq> j" using struct_unique [OF i b k] h(2) False by blast
    with h js have "jobs s j0 = Some job0" by simp
    with a k h(2) cs show ?thesis unfolding inv_pc_def by simp
  qed
qed

lemma pc_sched:
  assumes a: "inv_pc s" and js: "jobs s' = jobs s"
    and ws: "workers s' = (workers s)(w \<mapsto> st')" and cs: "clock s' = clock s"
    and ok: "\<And>job. pc_ok (clock s) st' job"
  shows "inv_pc s'"
  unfolding inv_pc_def
proof (intro allI impI)
  fix w0 st0 j0 job0
  assume h: "workers s' w0 = Some st0" "running st0 = Some j0" "jobs s' j0 = Some job0"
  show "pc_ok (clock s') st0 job0"
  proof (cases "w0 = w")
    case True
    with h ws have "st0 = st'" by simp
    with ok cs show ?thesis by simp
  next
    case False
    with h ws have k: "workers s w0 = Some st0" by simp
    with a h js cs show ?thesis unfolding inv_pc_def by simp
  qed
qed

lemma pc_job:
  assumes a: "inv_pc s" and b: "jobs s j = Some job"
    and p: "progress job' = progress job" and f: "status job' = FAILED \<longleftrightarrow> status job = FAILED"
  shows "inv_pc (s\<lparr> jobs := (jobs s)(j \<mapsto> job') \<rparr>)"
  unfolding inv_pc_def
proof (intro allI impI)
  fix w0 st0 j0 job0
  let ?s' = "s\<lparr> jobs := (jobs s)(j \<mapsto> job') \<rparr>"
  assume h: "workers ?s' w0 = Some st0" "running st0 = Some j0" "jobs ?s' j0 = Some job0"
  show "pc_ok (clock ?s') st0 job0"
  proof (cases "j0 = j")
    case True
    with h have e: "job0 = job'" by simp
    from a h(1,2) b True have "pc_ok (clock s) st0 job" unfolding inv_pc_def by simp
    with p f e show ?thesis
      by (cases "(clock s, st0, job)" rule: pc_ok.cases) simp_all
  next
    case False
    with a h show ?thesis unfolding inv_pc_def by simp
  qed
qed

lemma pc_running:
  "inv_pc s \<Longrightarrow> workers s w = Some st \<Longrightarrow> running st = Some j \<Longrightarrow> jobs s j = Some job \<Longrightarrow>
   pc_ok (clock s) st job"
  unfolding inv_pc_def by blast

lemma pc_create:
  assumes a: "inv_pc s" and i: "inv_struct s" and f: "job_id \<notin> dom (jobs s)"
  shows "inv_pc (create_job cfg job_id fname wcfg s)"
  unfolding inv_pc_def
proof (intro allI impI)
  let ?s' = "create_job cfg job_id fname wcfg s"
  fix w0 st0 j0 job0
  assume h: "workers ?s' w0 = Some st0" "running st0 = Some j0" "jobs ?s' j0 = Some job0"
  from h(1) have k: "workers s w0 = Some st0" by (simp add: create_job_def Let_def)
  with i h(2) have "j0 \<in> dom (jobs s)" unfolding inv_struct_def by blast
  with f have "j0 \<noteq> job_id" by blast
  with h(3) have "jobs s j0 = Some job0" by (simp add: create_job_def Let_def)
  with a k h(2) have "pc_ok (clock s) st0 job0" unfolding inv_pc_def by blast
  then show "pc_ok (clock ?s') st0 job0" by (simp add: create_job_def Let_def)
qed

lemma pc_cancel_task: "inv_pc s \<Longrightarrow> inv_pc (cancel_task j s)"
proof -
  assume a: "inv_pc s"
  have "inv_pc (s\<lparr> workers := (workers s)(w \<mapsto> Cancelling j) \<rparr>)" for w
    by (rule pc_sched [OF a, where w = w and st' = "Cancelling j"]) simp_all
  with a show ?thesis by (simp add: cancel_task_def split: option.splits)
qed

lemma pc_fail:
  assumes a: "inv_pc s" and i: "inv_struct s" and b: "workers s w = Some st" "running st = Some j"
  shows "inv_pc (fail_attempt cfg w j e s)"
proof (cases "jobs s j")
  case None
  with a show ?thesis by (simp add: fail_attempt_def)
next
  case (Some job)
  show ?thesis
  proof (cases "retry_count job < max_retries cfg")
    case True
    show ?thesis
      by (rule pc_effect [OF a i b, where st' = "RetrySleep j"
            and jb = "Some (job\<lparr> status := FAILED, error_message := Some e, retry_count := retry_count job + 1 \<rparr>)"])
         (use Some True in \<open>auto simp: fail_attempt_def\<close>)
  next
    case False
    show ?thesis
      by (rule pc_effect [OF a i b, where st' = "Finishing j"
            and jb = "Some (job\<lparr> status := FAILED, error_message := Some e \<rparr>)"])
         (use Some False in \<open>auto simp: fail_attempt_def\<close>)
  qed
qed

lemma pc_cancel: "inv_pc s \<Longrightarrow> inv_pc (fst (cancel_job j s))"
proof -
  assume a: "inv_pc s"
  have b: "\<And>job. jobs s j = Some job \<Longrightarrow> status job \<noteq> FAILED \<Longrightarrow>
            inv_pc (s\<lparr> jobs := (jobs s)(j \<mapsto> job\<lparr> status := CANCELLED \<rparr>) \<rparr>)"
    using a by (rule pc_job) simp_all
  have c: "\<And>s' x y. inv_pc s' \<Longrightarrow> inv_pc (s'\<lparr> backend_calls := x, suspended_cancels := y \<rparr>)"
    by (subst pc_cong) simp_all
  show ?thesis
    using a b c pc_cancel_task
    by (auto simp: cancel_job_def cancel_job_finish_def Let_def split: option.splits)
qed

lemma pc_cancel_resume:
  "inv_pc s \<Longrightarrow> inv_pc (step cfg s (CancelResume j))"
proof -
  assume a: "inv_pc s"
  have "inv_pc (s\<lparr> suspended_cancels := remove1 j (suspended_cancels s) \<rparr>)"
    using a by (subst pc_cong) simp_all
  then show ?thesis using a by (simp add: cancel_job_finish_def pc_cancel_task)
qed

lemma pc_begin:
  assumes a: "inv_pc s" and i: "inv_struct s" and b: "workers s w = Some (Spawned j)"
  shows "inv_pc (begin_attempt w j s)"
proof (cases "jobs s j")
  case None
  with a show ?thesis by (simp add: begin_attempt_def)
next
  case (Some job)
  have r: "running (Spawned j) = Some j" by simp
  show ?thesis
    by (rule pc_effect [OF a i b r, where st' = "AwaitUpload j"
          and jb = "Some (job\<lparr> status := UPLOADING, started_at := Some (clock s), progress := 10 \<rparr>)"])
       (use Some in \<open>auto simp: begin_attempt_def\<close>)
qed

lemma pc_upload:
  assumes a: "inv_pc s" and i: "inv_struct s" and b: "workers s w = Some (AwaitUpload j)"
  shows "inv_pc (upload_returned cfg w j n s)"
proof (cases "jobs s j")
  case None
  with a show ?thesis by (simp add: upload_returned_def)
next
  case (Some job)
  have r: "running (AwaitUpload j) = Some j" by simp
  show ?thesis
  proof (cases "generate_workflow (template s) (clock s) n (config job)")
    case (Inl e)
    show ?thesis
    proof (cases "retry_count job < max_retries cfg")
      case True
      show ?thesis
        by (rule pc_effect [OF a i b r, where st' = "RetrySleep j"
              and jb = "Some (job\<lparr> progress := 30, status := FAILED, error_message := Some e,
                               retry_count := retry_count job + 1 \<rparr>)"])
           (use Some Inl True in \<open>auto simp: upload_returned_def fail_attempt_def\<close>)
    next
      case False
      show ?thesis
        by (rule pc_effect [OF a i b r, where st' = "Finishing j"
              and jb = "Some (job\<lparr> progress := 30, status := FAILED, error_message := Some e \<rparr>)"])
           (use Some Inl False in \<open>auto simp: upload_returned_def fail_attempt_def\<close>)
    qed
  next
    case (Inr flow)
    show ?thesis
      by (rule pc_effect [OF a i b r, where st' = "AwaitQueue j"
            and jb = "Some (job\<lparr> progress := 40, status := PROCESSING \<rparr>)"])
         (use Some Inr in \<open>auto simp: upload_returned_def\<close>)
  qed
qed

lemma pc_poll:
  assumes a: "inv_pc s" and i: "inv_struct s" and b: "workers s w = Some (PollSleep j p t)"
  shows "inv_pc (poll cfg w j p t s)"
proof (cases "clock s - t < max_wait")
  case False
  have r: "running (PollSleep j p t) = Some j" by simp
  from False show ?thesis using pc_fail [OF a i b r] by (simp add: poll_def)
next
  case True
  have r: "running (PollSleep j p t) = Some j" by simp
  have ok: "pc_ok (clock s) (AwaitHistory j p t) job'" if "jobs s j = Some job'" for job'
    using pc_running [OF a b r that] by simp
  show ?thesis
    by (rule pc_effect [OF a i b r, where st' = "AwaitHistory j p t" and jb = "jobs s j"])
       (use True ok in \<open>auto simp: poll_def\<close>)
qed

lemma pc_queue:
  assumes a: "inv_pc s" and i: "inv_struct s" and b: "workers s w = Some (AwaitQueue j)"
  shows "inv_pc (queue_returned cfg w j p s)"
proof (cases "jobs s j")
  case None
  with a show ?thesis by (simp add: queue_returned_def)
next
  case (Some job)
  have r: "running (AwaitQueue j) = Some j" by simp
  show ?thesis
    by (rule pc_effect [OF a i b r, where st' = "AwaitHistory j p (clock s)"
          and jb = "Some (job\<lparr> comfy_prompt_id := Some p, progress := 50 \<rparr>)"])
       (use Some in \<open>auto simp: queue_returned_def poll_def max_wait_def\<close>)
qed

lemma pc_history:
  assumes a: "inv_pc s" and i: "inv_struct s" and b: "workers s w = Some (AwaitHistory j p t)"
  shows "inv_pc (history_returned w j p t c s)"
proof (cases "jobs s j")
  case None
  with a show ?thesis by (simp add: history_returned_def)
next
  case (Some job)
  have r: "running (AwaitHistory j p t) = Some j" by simp
  from pc_running [OF a b r Some] have t: "t \<le> clock s" by simp
  show ?thesis
  proof (cases c)
    case True
    show ?thesis
      by (rule pc_effect [OF a i b r, where st' = "AwaitDownload j p"
            and jb = "Some (job\<lparr> progress := 80 \<rparr>)"])
         (use Some True in \<open>auto simp: history_returned_def\<close>)
  next
    case False
    have "0 \<le> min 30 ((clock s - t) / max_wait * 30)"
      using t by (simp add: max_wait_def)
    then have ok: "pc_ok (clock s) (PollSleep j p t)
        (job\<lparr> progress := 50 + min 30 ((clock s - t) / max_wait * 30) \<rparr>)"
      using t by simp
    show ?thesis
      by (rule pc_effect [OF a i b r, where st' = "PollSleep j p t"
            and jb = "Some (job\<lparr> progress := 50 + min 30 ((clock s - t) / max_wait * 30) \<rparr>)"])
         (use Some False ok in \<open>auto simp: history_returned_def\<close>)
  qed
qed

lemma pc_download:
  assumes a: "inv_pc s" and i: "inv_struct s" and b: "workers s w = Some (AwaitDownload j p)"
  shows "inv_pc (download_returned cfg w j f s)"
proof (cases "jobs s j")
  case None
  with a show ?thesis by (simp add: download_returned_def)
next
  case (Some job)
  have r: "running (AwaitDownload j p) = Some j" by simp
  show ?thesis
    by (rule pc_effect [OF a i b r, where st' = "Finishing j"
          and jb = "Some (job\<lparr> result_path := Some (output_dir cfg @ ''/'' @ ident job @ ''_'' @ f),
               progress := 100, status := COMPLETED, completed_at := Some (clock s) \<rparr>)"])
       (use Some in \<open>auto simp: download_returned_def Let_def\<close>)
qed

lemma pc_retry:
  assumes a: "inv_pc s"
  shows "inv_pc (retry_woke w j s)"
  by (rule pc_sched [OF a, where w = w and st' = "Finishing j"])
     (auto simp: retry_woke_def queue_job_def)

lemma pc_loop: "inv_pc s \<Longrightarrow> inv_pc (worker_loop w s)"
proof -
  assume a: "inv_pc s"
  obtain r q where d: "dequeue (job_queue s) (jobs s) = (r, q)" by (cases "dequeue (job_queue s) (jobs s)")
  show ?thesis
  proof (cases r)
    case None
    show ?thesis
      by (rule pc_sched [OF a, where w = w and st' = Idle]) (use None d in \<open>auto simp: worker_loop_def\<close>)
  next
    case (Some j)
    show ?thesis
      by (rule pc_sched [OF a, where w = w and st' = "Spawned j"]) (use Some d in \<open>auto simp: worker_loop_def\<close>)
  qed
qed

lemma pc_resume: "inv_pc s \<Longrightarrow> inv_pc (worker_resume w j s)"
proof -
  assume a: "inv_pc s"
  have "inv_pc (s\<lparr> processing_tasks := (processing_tasks s)(j := None) \<rparr>)"
    using a by (subst pc_cong) simp_all
  then show ?thesis unfolding worker_resume_def by (rule pc_loop)
qed

lemma pc_cancelled:
  assumes a: "inv_pc s"
  shows "inv_pc (worker_cancelled w j s)"
  by (rule pc_sched [OF a, where w = w and st' = Dead]) (auto simp: worker_cancelled_def)

lemma pc_react:
  "inv_pc s \<Longrightarrow> inv_struct s \<Longrightarrow> workers s w = Some st \<Longrightarrow> inv_pc (react cfg w st r s)"
  by (cases "(cfg, w, st, r, s)" rule: react.cases)
     (simp_all add: pc_loop pc_begin pc_upload pc_fail pc_queue pc_history
        pc_poll pc_download pc_retry pc_resume pc_cancelled)

lemma pc_cleanup: "inv_pc s \<Longrightarrow> inv_pc (cleanup_cycle cfg bad s)"
  by (subst pc_cong) (simp_all add: cleanup_cycle_def split: prod.splits)

lemma pc_tick: "inv_pc s \<Longrightarrow> 0 \<le> d \<Longrightarrow> inv_pc (s\<lparr> clock := clock s + d \<rparr>)"
  unfolding inv_pc_def
proof (intro allI impI)
  fix w0 st0 j0 job0
  assume a: "\<forall>w st j job. workers s w = Some st \<longrightarrow> running st = Some j \<longrightarrow> jobs s j = Some job \<longrightarrow>
        pc_ok (clock s) st job" and d: "0 \<le> d"
    and h: "workers (s\<lparr> clock := clock s + d \<rparr>) w0 = Some st0" "running st0 = Some j0"
      "jobs (s\<lparr> clock := clock s + d \<rparr>) j0 = Some job0"
  from a h have "pc_ok (clock s) st0 job0" by simp
  then have "pc_ok (clock s + d) st0 job0" by (rule pc_ok_mono) (use d in simp)
  then show "pc_ok (clock (s\<lparr> clock := clock s + d \<rparr>)) st0 job0" by simp
qed

lemma pc_step:
  "inv_pc s \<Longrightarrow> inv_struct s \<Longrightarrow> set (created [ev]) \<inter> dom (jobs s) = {} \<Longrightarrow> inv_pc (step cfg s ev)"
  by (cases ev)
     (simp_all add: pc_create pc_cancel pc_cancel_resume pc_react pc_cleanup pc_tick worker_step_def
        del: step.simps(3) split: option.splits)

section \<open>The invariants along a run\<close>

lemma created_Cons: "created (ev # evs) = created [ev] @ created evs"
  by (cases ev) simp_all

lemma dom_fail: "dom (jobs (fail_attempt cfg w j e s)) = dom (jobs s)"
  by (auto simp: fail_attempt_def Let_def split: option.splits)

lemma dom_poll: "dom (jobs (poll cfg w j p t s)) = dom (jobs s)"
  by (simp add: poll_def dom_fail)

lemma dom_loop: "dom (jobs (worker_loop w s)) = dom (jobs s)"
  by (simp add: worker_loop_def split: prod.splits option.splits)

lemma dom_react: "dom (jobs (react cfg w st r s)) = dom (jobs s)"
proof (cases "(cfg, w, st, r, s)" rule: react.cases)
  case (3 cfg w j name s)
  then show ?thesis
    by (auto simp: upload_returned_def Let_def dom_fail split: option.splits sum.splits)
next
  case (5 cfg w j prompt_id s)
  then show ?thesis
    by (auto simp: queue_returned_def dom_poll split: option.splits)
qed (auto simp: dom_fail dom_poll dom_loop begin_attempt_def history_returned_def download_returned_def
       retry_woke_def queue_job_def worker_resume_def worker_cancelled_def Let_def split: option.splits)

lemma dom_cancel_task: "dom (jobs (cancel_task j s)) = dom (jobs s)"
  by (simp add: cancel_task_def split: option.splits)

lemma dom_step: "dom (jobs (step cfg s ev)) = dom (jobs s) \<union> set (created [ev])"
proof (cases ev)
  case (Create j f c)
  then show ?thesis by (auto simp: create_job_def Let_def)
next
  case (Cancel j)
  then show ?thesis
    by (auto simp: cancel_job_def cancel_job_finish_def dom_cancel_task Let_def split: option.splits)
next
  case (CancelResume j)
  then show ?thesis by (simp add: cancel_job_finish_def dom_cancel_task)
next
  case (Work w r)
  then show ?thesis by (simp add: worker_step_def dom_react split: option.splits)
next
  case (Cleanup bad)
  then show ?thesis by (simp add: cleanup_cycle_def split: prod.splits)
next
  case (Tick d)
  then show ?thesis by simp
qed

lemma dom_run: "dom (jobs (run cfg s evs)) = dom (jobs s) \<union> set (created evs)"
proof (induction evs arbitrary: s)
  case Nil
  show ?case by (simp add: run_def)
next
  case (Cons ev evs)
  have "run cfg s (ev # evs) = run cfg (step cfg s ev) evs" by (simp add: run_def)
  with Cons [of "step cfg s ev"] show ?case
    by (subst created_Cons) (auto simp: dom_step)
qed

lemma inv_step:
  assumes "inv s" "set (created [ev]) \<inter> dom (jobs s) = {}"
  shows "inv (step cfg s ev)"
  using assms unfolding inv_def by (simp add: struct_step done_step pc_step)

lemma inv_run:
  assumes "inv s" "distinct (created evs)" "set (created evs) \<inter> dom (jobs s) = {}"
  shows "inv (run cfg s evs)"
  using assms
proof (induction evs arbitrary: s)
  case Nil
  then show ?case by (simp add: run_def)
next
  case (Cons ev evs)
  have r: "run cfg s (ev # evs) = run cfg (step cfg s ev) evs" by (simp add: run_def)
  from Cons.prems have d: "distinct (created [ev] @ created evs)"
    and e: "set (created [ev] @ created evs) \<inter> dom (jobs s) = {}"
    by (simp_all only: created_Cons [symmetric])
  from e have f: "set (created [ev]) \<inter> dom (jobs s) = {}" by auto
  have "inv (step cfg s ev)" by (rule inv_step [OF Cons.prems(1) f])
  moreover from d have "distinct (created evs)" by simp
  moreover from d e have "set (created evs) \<inter> dom (jobs (step cfg s ev)) = {}"
    by (auto simp: dom_step)
  ultimately show ?case unfolding r by (rule Cons.IH)
qed

lemma inv_initial: "initial cfg s \<Longrightarrow> inv s"
  by (auto simp: initial_def inv_def inv_struct_def inv_done_def inv_pc_def split: if_splits)

lemma inv_reachable:
  "initial cfg s0 \<Longrightarrow> distinct (created evs) \<Longrightarrow> inv (run cfg s0 evs)"
  by (rule inv_run) (auto simp: inv_initial initial_def)

section \<open>Frame of a worker step and the retry counter\<close>

lemma fail_other: "j' \<noteq> j \<Longrightarrow> jobs (fail_attempt cfg w j e s) j' = jobs s j'"
  by (simp add: fail_attempt_def Let_def split: option.splits)

lemma poll_other: "j' \<noteq> j \<Longrightarrow> jobs (poll cfg w j p t s) j' = jobs s j'"
  by (simp add: poll_def fail_other)

lemma loop_jobs: "jobs (worker_loop w s) = jobs s"
  by (simp add: worker_loop_def split: prod.splits option.splits)

lemma react_other:
  assumes "running st \<noteq> Some j'"
  shows "jobs (react cfg w st r s) j' = jobs s j'"
proof (cases "(cfg, w, st, r, s)" rule: react.cases)
  case (3 cfg w j name s)
  with assms show ?thesis
    by (auto simp: upload_returned_def Let_def fail_other split: option.splits sum.splits)
next
  case (5 cfg w j prompt_id s)
  with assms show ?thesis
    by (auto simp: queue_returned_def poll_other split: option.splits)
qed (use assms in \<open>auto simp: fail_other poll_other loop_jobs begin_attempt_def history_returned_def
       download_returned_def retry_woke_def queue_job_def worker_resume_def worker_cancelled_def Let_def
       split: option.splits\<close>)

lemma cancel_task_jobs: "jobs (cancel_task j s) = jobs s"
  by (simp add: cancel_task_def split: option.splits)

lemma cancel_other: "j' \<noteq> j \<Longrightarrow> jobs (fst (cancel_job j s)) j' = jobs s j'"
  by (auto simp: cancel_job_def cancel_job_finish_def cancel_task_jobs Let_def split: option.splits)

lemma retry_ok_upd:
  assumes "retry_ok cfg s" "jobs s j = Some job" "jobs s' = (jobs s)(j \<mapsto> job')"
    "retry_count job' = retry_count job \<or>
     (retry_count job < max_retries cfg \<and> retry_count job' = retry_count job + 1)"
  shows "retry_ok cfg s'"
  using assms unfolding retry_ok_def by (auto split: if_splits)

lemma retry_ok_same: "retry_ok cfg s \<Longrightarrow> jobs s' = jobs s \<Longrightarrow> retry_ok cfg s'"
  by (simp add: retry_ok_def)

lemma retry_ok_fail: "retry_ok cfg s \<Longrightarrow> retry_ok cfg (fail_attempt cfg w j e s)"
  by (cases "jobs s j")
     (auto simp: fail_attempt_def Let_def intro: retry_ok_same elim!: retry_ok_upd)

lemma retry_ok_poll: "retry_ok cfg s \<Longrightarrow> retry_ok cfg (poll cfg w j p t s)"
  by (auto simp: poll_def retry_ok_fail intro: retry_ok_same)

lemma retry_ok_upload:
  assumes a: "retry_ok cfg s"
  shows "retry_ok cfg (upload_returned cfg w j name s)"
proof (cases "jobs s j")
  case None
  with a show ?thesis by (simp add: upload_returned_def)
next
  case (Some job)
  have b: "retry_ok cfg (s\<lparr> jobs := (jobs s)(j \<mapsto> job\<lparr> progress := 30 \<rparr>) \<rparr>)"
    by (rule retry_ok_upd [OF a Some, where job' = "job\<lparr> progress := 30 \<rparr>"]) simp_all
  have c: "retry_ok cfg (s\<lparr> jobs := (jobs s)(j \<mapsto> job\<lparr> progress := 40, status := PROCESSING \<rparr>),
             backend_calls := x, workers := y \<rparr>)" for x y
    by (rule retry_ok_upd [OF a Some, where job' = "job\<lparr> progress := 40, status := PROCESSING \<rparr>"])
       simp_all
  from Some b c show ?thesis
    by (auto simp: upload_returned_def Let_def retry_ok_fail split: sum.splits)
qed

lemma retry_ok_queue:
  assumes a: "retry_ok cfg s"
  shows "retry_ok cfg (queue_returned cfg w j p s)"
proof (cases "jobs s j")
  case None
  with a show ?thesis by (simp add: queue_returned_def)
next
  case (Some job)
  have b: "retry_ok cfg (s\<lparr> jobs := (jobs s)(j \<mapsto> job\<lparr> comfy_prompt_id := Some p, progress := 50 \<rparr>) \<rparr>)"
    by (rule retry_ok_upd [OF a Some,
          where job' = "job\<lparr> comfy_prompt_id := Some p, progress := 50 \<rparr>"]) simp_all
  from Some b show ?thesis by (simp add: queue_returned_def retry_ok_poll)
qed

lemma retry_ok_begin:
  assumes a: "retry_ok cfg s"
  shows "retry_ok cfg (begin_attempt w j s)"
proof (cases "jobs s j")
  case None
  with a show ?thesis by (simp add: begin_attempt_def)
next
  case (Some job)
  show ?thesis
    by (rule retry_ok_upd [OF a Some,
          where job' = "job\<lparr> status := UPLOADING, started_at := Some (clock s), progress := 10 \<rparr>"])
       (use Some in \<open>simp_all add: begin_attempt_def\<close>)
qed

lemma retry_ok_history:
  assumes a: "retry_ok cfg s"
  shows "retry_ok cfg (history_returned w j p t c s)"
proof (cases "jobs s j")
  case None
  with a show ?thesis by (simp add: history_returned_def)
next
  case (Some job)
  show ?thesis
  proof (cases c)
    case True
    show ?thesis
      by (rule retry_ok_upd [OF a Some, where job' = "job\<lparr> progress := 80 \<rparr>"])
         (use Some True in \<open>simp_all add: history_returned_def\<close>)
  next
    case False
    show ?thesis
      by (rule retry_ok_upd [OF a Some,
            where job' = "job\<lparr> progress := 50 + min 30 ((clock s - t) / max_wait * 30) \<rparr>"])
         (use Some False in \<open>simp_all add: history_returned_def\<close>)
  qed
qed

lemma retry_ok_download:
  assumes a: "retry_ok cfg s"
  shows "retry_ok cfg (download_returned cfg w j f s)"
proof (cases "jobs s j")
  case None
  with a show ?thesis by (simp add: download_returned_def)
next
  case (Some job)
  show ?thesis
    by (rule retry_ok_upd [OF a Some,
          where job' = "job\<lparr> result_path := Some (output_dir cfg @ ''/'' @ ident job @ ''_'' @ f),
               progress := 100, status := COMPLETED, completed_at := Some (clock s) \<rparr>"])
       (use Some in \<open>simp_all add: download_returned_def Let_def\<close>)
qed

lemma retry_ok_sched:
  assumes a: "retry_ok cfg s"
  shows "retry_ok cfg (retry_woke w j s)" "retry_ok cfg (worker_loop w s)"
    "retry_ok cfg (worker_resume w j s)" "retry_ok cfg (worker_cancelled w j s)"
  by (rule retry_ok_same [OF a],
      simp add: retry_woke_def queue_job_def worker_resume_def worker_cancelled_def loop_jobs Let_def)+

lemma retry_ok_react:
  assumes a: "retry_ok cfg s"
  shows "retry_ok cfg (react cfg w st r s)"
  by (cases "(cfg, w, st, r, s)" rule: react.cases)
     (use a in \<open>simp_all add: retry_ok_fail retry_ok_poll retry_ok_upload retry_ok_queue
        retry_ok_begin retry_ok_history retry_ok_download retry_ok_sched\<close>)

lemma retry_ok_step: "retry_ok cfg s \<Longrightarrow> 0 \<le> max_retries cfg \<Longrightarrow> retry_ok cfg (step cfg s ev)"
proof (cases ev)
  case (Create j f c)
  assume "retry_ok cfg s" "0 \<le> max_retries cfg"
  with Create show ?thesis by (auto simp: retry_ok_def create_job_def Let_def)
next
  case (Cancel j)
  assume "retry_ok cfg s"
  with Cancel show ?thesis
    by (auto simp: cancel_job_def cancel_job_finish_def cancel_task_jobs Let_def
          split: option.splits intro: retry_ok_same elim!: retry_ok_upd)
next
  case (CancelResume j)
  assume "retry_ok cfg s"
  with CancelResume show ?thesis
    by (auto simp: cancel_job_finish_def cancel_task_jobs intro: retry_ok_same)
next
  case (Work w r)
  assume "retry_ok cfg s"
  with Work show ?thesis by (simp add: worker_step_def retry_ok_react split: option.splits)
next
  case (Cleanup bad)
  assume "retry_ok cfg s"
  with Cleanup show ?thesis by (auto simp: cleanup_cycle_def split: prod.splits intro: retry_ok_same)
next
  case (Tick d)
  assume "retry_ok cfg s"
  with Tick show ?thesis by (auto intro: retry_ok_same)
qed

lemma retry_ok_run: "retry_ok cfg s \<Longrightarrow> 0 \<le> max_retries cfg \<Longrightarrow> retry_ok cfg (run cfg s evs)"
  unfolding run_def by (induction evs arbitrary: s) (simp_all add: retry_ok_step)

section \<open>The error message is never cleared\<close>








section \<open>Jobs at rest are not touched\<close>

lemma at_rest_cong:
  "job_queue s' = job_queue s \<Longrightarrow> workers s' = workers s \<Longrightarrow> at_rest s' j = at_rest s j"
  by (simp add: at_rest_def)

lemma at_rest_upd:
  assumes a: "at_rest s j" and q: "set (job_queue s') \<subseteq> set (job_queue s) \<union> A" "j \<notin> A"
    and ws: "workers s' = (workers s)(w \<mapsto> st')" and r: "running st' \<noteq> Some j"
  shows "at_rest s' j"
  unfolding at_rest_def
proof (intro conjI allI impI)
  from a q show "j \<notin> set (job_queue s')" unfolding at_rest_def by blast
next
  fix w0 st0 assume h: "workers s' w0 = Some st0"
  show "running st0 \<noteq> Some j"
  proof (cases "w0 = w")
    case True
    with h ws r show ?thesis by simp
  next
    case False
    with h ws a show ?thesis unfolding at_rest_def by simp
  qed
qed

lemma at_rest_cancel_task:
  assumes a: "at_rest s j"
  shows "at_rest (cancel_task j' s) j"
proof (cases "processing_tasks s j'")
  case None
  with a show ?thesis by (simp add: cancel_task_def)
next
  case (Some w)
  show ?thesis
  proof (cases "workers s w")
    case None
    with a Some show ?thesis by (simp add: cancel_task_def)
  next
    case st: (Some st)
    show ?thesis
    proof (cases "running st = Some j'")
      case False
      with a Some st show ?thesis by (simp add: cancel_task_def)
    next
      case True
      with a st have "j' \<noteq> j" unfolding at_rest_def by blast
      have "at_rest (s\<lparr> workers := (workers s)(w \<mapsto> Cancelling j') \<rparr>) j"
        by (rule at_rest_upd [OF a, where A = "{}" and w = w and st' = "Cancelling j'"])
           (use \<open>j' \<noteq> j\<close> in simp_all)
      with Some st True show ?thesis by (simp add: cancel_task_def)
    qed
  qed
qed

lemma at_rest_fail:
  assumes a: "at_rest s j" and n: "j' \<noteq> j"
  shows "at_rest (fail_attempt cfg w j' e s) j"
proof (cases "jobs s j'")
  case None
  with a show ?thesis by (simp add: fail_attempt_def)
next
  case (Some job)
  show ?thesis
  proof (cases "retry_count job < max_retries cfg")
    case True
    show ?thesis
      by (rule at_rest_upd [OF a, where A = "{}" and w = w and st' = "RetrySleep j'"])
         (use Some True n in \<open>simp_all add: fail_attempt_def\<close>)
  next
    case False
    show ?thesis
      by (rule at_rest_upd [OF a, where A = "{}" and w = w and st' = "Finishing j'"])
         (use Some False n in \<open>simp_all add: fail_attempt_def\<close>)
  qed
qed

lemma at_rest_poll:
  assumes a: "at_rest s j" and n: "j' \<noteq> j"
  shows "at_rest (poll cfg w j' p t s) j"
proof (cases "clock s - t < max_wait")
  case True
  show ?thesis
    by (rule at_rest_upd [OF a, where A = "{}" and w = w and st' = "AwaitHistory j' p t"])
       (use True n in \<open>simp_all add: poll_def\<close>)
next
  case False
  with at_rest_fail [OF a n] show ?thesis by (simp add: poll_def)
qed

lemma at_rest_begin:
  assumes a: "at_rest s j" and n: "j' \<noteq> j"
  shows "at_rest (begin_attempt w j' s) j"
proof (cases "jobs s j'")
  case None
  with a show ?thesis by (simp add: begin_attempt_def)
next
  case (Some job)
  show ?thesis
    by (rule at_rest_upd [OF a, where A = "{}" and w = w and st' = "AwaitUpload j'"])
       (use Some n in \<open>simp_all add: begin_attempt_def\<close>)
qed

lemma at_rest_upload:
  assumes a: "at_rest s j" and n: "j' \<noteq> j"
  shows "at_rest (upload_returned cfg w j' name s) j"
proof (cases "jobs s j'")
  case None
  with a show ?thesis by (simp add: upload_returned_def)
next
  case (Some job)
  have b: "at_rest (s\<lparr> jobs := (jobs s)(j' \<mapsto> job\<lparr> progress := 30 \<rparr>) \<rparr>) j"
    using a by (subst at_rest_cong [where s = s]) simp_all
  show ?thesis
  proof (cases "generate_workflow (template s) (clock s) name (config job)")
    case (Inl e)
    with Some at_rest_fail [OF b n] show ?thesis by (simp add: upload_returned_def)
  next
    case (Inr flow)
    show ?thesis
      by (rule at_rest_upd [OF a, where A = "{}" and w = w and st' = "AwaitQueue j'"])
         (use Some Inr n in \<open>simp_all add: upload_returned_def\<close>)
  qed
qed

lemma at_rest_queue:
  assumes a: "at_rest s j" and n: "j' \<noteq> j"
  shows "at_rest (queue_returned cfg w j' p s) j"
proof (cases "jobs s j'")
  case None
  with a show ?thesis by (simp add: queue_returned_def)
next
  case (Some job)
  have b: "at_rest (s\<lparr> jobs := (jobs s)(j' \<mapsto> job\<lparr> comfy_prompt_id := Some p, progress := 50 \<rparr>) \<rparr>) j"
    using a by (subst at_rest_cong [where s = s]) simp_all
  with Some at_rest_poll [OF b n] show ?thesis by (simp add: queue_returned_def)
qed

lemma at_rest_history:
  assumes a: "at_rest s j" and n: "j' \<noteq> j"
  shows "at_rest (history_returned w j' p t c s) j"
proof (cases "jobs s j'")
  case None
  with a show ?thesis by (simp add: history_returned_def)
next
  case (Some job)
  show ?thesis
  proof (cases c)
    case True
    show ?thesis
      by (rule at_rest_upd [OF a, where A = "{}" and w = w and st' = "AwaitDownload j' p"])
         (use Some True n in \<open>simp_all add: history_returned_def\<close>)
  next
    case False
    show ?thesis
      by (rule at_rest_upd [OF a, where A = "{}" and w = w and st' = "PollSleep j' p t"])
         (use Some False n in \<open>simp_all add: history_returned_def\<close>)
  qed
qed

lemma at_rest_download:
  assumes a: "at_rest s j"
  shows "at_rest (download_returned cfg w j' f s) j"
proof (cases "jobs s j'")
  case None
  with a show ?thesis by (simp add: download_returned_def)
next
  case (Some job)
  show ?thesis
    by (rule at_rest_upd [OF a, where A = "{}" and w = w and st' = "Finishing j'"])
       (use Some in \<open>simp_all add: download_returned_def Let_def\<close>)
qed

lemma at_rest_retry:
  assumes a: "at_rest s j" and n: "j' \<noteq> j"
  shows "at_rest (retry_woke w j' s) j"
  by (rule at_rest_upd [OF a, where A = "{j'}" and w = w and st' = "Finishing j'"])
     (use n in \<open>auto simp: retry_woke_def queue_job_def\<close>)

lemma at_rest_loop:
  assumes a: "at_rest s j"
  shows "at_rest (worker_loop w s) j"
proof -
  obtain r q where d: "dequeue (job_queue s) (jobs s) = (r, q)" by (cases "dequeue (job_queue s) (jobs s)")
  note e = dequeue_props [OF d]
  show ?thesis
  proof (cases r)
    case None
    show ?thesis
      by (rule at_rest_upd [OF a, where A = "{}" and w = w and st' = Idle])
         (use None d e in \<open>auto simp: worker_loop_def\<close>)
  next
    case (Some j')
    with e have "j' \<in> set (job_queue s)" by simp
    with a have n: "j' \<noteq> j" unfolding at_rest_def by blast
    show ?thesis
      by (rule at_rest_upd [OF a, where A = "{}" and w = w and st' = "Spawned j'"])
         (use Some d e n in \<open>auto simp: worker_loop_def\<close>)
  qed
qed

lemma at_rest_resume:
  assumes a: "at_rest s j"
  shows "at_rest (worker_resume w j' s) j"
proof -
  have "at_rest (s\<lparr> processing_tasks := (processing_tasks s)(j' := None) \<rparr>) j"
    using a by (subst at_rest_cong [where s = s]) simp_all
  then show ?thesis unfolding worker_resume_def by (rule at_rest_loop)
qed

lemma at_rest_cancelled:
  assumes a: "at_rest s j"
  shows "at_rest (worker_cancelled w j' s) j"
  by (rule at_rest_upd [OF a, where A = "{}" and w = w and st' = Dead])
     (simp_all add: worker_cancelled_def)

lemma at_rest_react:
  assumes a: "at_rest s j" and b: "workers s w = Some st"
  shows "at_rest (react cfg w st r s) j"
proof -
  from a b have n: "running st \<noteq> Some j" unfolding at_rest_def by blast
  show ?thesis
    by (cases "(cfg, w, st, r, s)" rule: react.cases)
       (use a n in \<open>auto simp: at_rest_loop at_rest_begin at_rest_upload at_rest_fail at_rest_queue
          at_rest_history at_rest_poll at_rest_download at_rest_retry at_rest_resume at_rest_cancelled\<close>)
qed

lemma rest_step:
  assumes a: "at_rest s j" and b: "jobs s j = Some job" and t: "status job \<in> {COMPLETED, FAILED, CANCELLED}"
    and f: "j \<notin> set (created [ev])"
  shows "at_rest (step cfg s ev) j \<and> jobs (step cfg s ev) j = Some job"
proof (cases ev)
  case (Create j' fn c)
  with f have n: "j' \<noteq> j" by simp
  have "at_rest (create_job cfg j' fn c s) j"
    using a n by (auto simp: at_rest_def create_job_def Let_def)
  with Create b n show ?thesis by (simp add: create_job_def Let_def)
next
  case (Cancel j')
  show ?thesis
  proof (cases "j' = j")
    case True
    with b t have "cancel_job j' s = (s, Some False)"
      by (auto simp: cancel_job_def)
    with Cancel a b show ?thesis by simp
  next
    case False
    have c: "at_rest (s\<lparr> jobs := x \<rparr>) j" for x
      using a by (subst at_rest_cong [where s = s]) simp_all
    have d: "at_rest (s\<lparr> jobs := x, backend_calls := y, suspended_cancels := z \<rparr>) j" for x y z
      using a by (subst at_rest_cong [where s = s]) simp_all
    have "at_rest (fst (cancel_job j' s)) j"
      using a c d at_rest_cancel_task
      by (auto simp: cancel_job_def cancel_job_finish_def Let_def split: option.splits)
    with Cancel b False show ?thesis by (simp add: cancel_other)
  qed
next
  case (CancelResume j')
  have "at_rest (s\<lparr> suspended_cancels := x \<rparr>) j" for x
    using a by (subst at_rest_cong [where s = s]) simp_all
  with CancelResume a b show ?thesis
    by (simp add: cancel_job_finish_def at_rest_cancel_task cancel_task_jobs)
next
  case (Work w r)
  show ?thesis
  proof (cases "workers s w")
    case None
    with Work a b show ?thesis by (simp add: worker_step_def)
  next
    case (Some st)
    from a Some have n: "running st \<noteq> Some j" unfolding at_rest_def by blast
    from Work Some a b show ?thesis
      by (simp add: worker_step_def at_rest_react react_other [OF n])
  qed
next
  case (Cleanup bad)
  have "at_rest (cleanup_cycle cfg bad s) j"
    using a by (subst at_rest_cong [where s = s]) (simp_all add: cleanup_cycle_def split: prod.splits)
  with Cleanup a b show ?thesis by (simp add: cleanup_cycle_def split: prod.splits)
next
  case (Tick d)
  have "at_rest (s\<lparr> clock := x \<rparr>) j" for x
    using a by (subst at_rest_cong [where s = s]) simp_all
  with Tick a b show ?thesis by simp
qed

lemma rest_run:
  assumes "at_rest s j" "jobs s j = Some job" "status job \<in> {COMPLETED, FAILED, CANCELLED}" "j \<notin> set (created evs)"
  shows "at_rest (run cfg s evs) j \<and> jobs (run cfg s evs) j = Some job"
  using assms
proof (induction evs arbitrary: s)
  case Nil
  then show ?case by (simp add: run_def)
next
  case (Cons ev evs)
  have r: "run cfg s (ev # evs) = run cfg (step cfg s ev) evs" by (simp add: run_def)
  from Cons.prems(4) have f: "j \<notin> set (created [ev])" "j \<notin> set (created evs)"
    by (subst (asm) created_Cons, simp)+
  from rest_step [OF Cons.prems(1,2,3) f(1)]
  have "at_rest (step cfg s ev) j" "jobs (step cfg s ev) j = Some job" by simp_all
  from Cons.IH [OF this Cons.prems(3) f(2)] show ?case unfolding r .
qed

section \<open>Progress along a step\<close>

lemma progress_react:
  assumes a: "inv_pc s" and b: "workers s w = Some st" and c: "jobs s j = Some job"
  shows "\<exists>job'. jobs (react cfg w st r s) j = Some job' \<and>
           (progress job \<le> progress job' \<or> (st = Spawned j \<and> r = Resume \<and> progress job' = 10))"
proof (cases "running st = Some j")
  case False
  with c show ?thesis by (simp add: react_other)
next
  case True
  note ok = pc_running [OF a b True c]
  have m: "min 30 x \<le> (30::real)" for x by simp
  show ?thesis
  proof (cases "(cfg, w, st, r, s)" rule: react.cases)
    case (7 cfg' w' j' p t completed s')
    with ok True c m [of "(clock s - t) / max_wait * 30"] show ?thesis
      by (auto simp: history_returned_def Let_def)
  qed (use ok True c in \<open>auto simp: begin_attempt_def upload_returned_def fail_attempt_def
         queue_returned_def poll_def download_returned_def retry_woke_def queue_job_def
         worker_resume_def worker_cancelled_def loop_jobs Let_def max_wait_def
         split: option.splits sum.splits\<close>)
qed

lemma progress_step:
  assumes a: "inv_pc s" and c: "jobs s j = Some job" and f: "j \<notin> set (created [ev])"
  shows "\<exists>job'. jobs (step cfg s ev) j = Some job' \<and>
           (progress job \<le> progress job' \<or>
            (\<exists>w. ev = Work w Resume \<and> workers s w = Some (Spawned j) \<and> progress job' = 10))"
proof (cases ev)
  case (Create j' fn cf)
  with c f show ?thesis by (simp add: create_job_def Let_def)
next
  case (Cancel j')
  with c show ?thesis
    by (auto simp: cancel_job_def cancel_job_finish_def cancel_task_jobs Let_def split: option.splits)
next
  case (CancelResume j')
  with c show ?thesis by (simp add: cancel_job_finish_def cancel_task_jobs)
next
  case (Work w r)
  show ?thesis
  proof (cases "workers s w")
    case None
    with Work c show ?thesis by (simp add: worker_step_def)
  next
    case (Some st)
    from progress_react [OF a Some c, of cfg r] Work Some show ?thesis
      by (auto simp: worker_step_def)
  qed
next
  case (Cleanup bad)
  with c show ?thesis by (simp add: cleanup_cycle_def split: prod.splits)
next
  case (Tick d)
  with c show ?thesis by simp
qed

section \<open>Evaluating example runs\<close>

lemmas exec_defs = run_def start_def CONFIG_def example_config_def create_job_def worker_step_def py_int_def
  worker_loop_def begin_attempt_def upload_returned_def generate_workflow_def fail_attempt_def
  queue_returned_def poll_def history_returned_def download_returned_def retry_woke_def queue_job_def
  worker_resume_def worker_cancelled_def cancel_job_def cancel_job_finish_def cancel_task_def
  max_wait_def str_int_def Let_def

lemmas run_defs = failed_once_def retried_def retried_completed_def cancel_running_def
  failing_attempt_def three_failures_def upload_always_fails_def

lemma char_of_48: "char_of (48::nat) = CHR ''0''"
  by code_simp

section \<open>The claims about the job life cycle\<close>

lemma initial_start: "initial cfg (start cfg)"
  by (simp add: initial_def start_def)

lemma run_append: "run cfg s (evs @ evs') = run cfg (run cfg s evs) evs'"
  by (simp add: run_def)

lemma completed_at_rest:
  assumes "inv s" "jobs s j = Some job" "status job = COMPLETED"
  shows "at_rest s j"
  using assms unfolding inv_def inv_done_def at_rest_def by blast

text \<open>
  Claim C8. In every state that a run reaches from the initial state, the identifiers drawn
  by \<open>create_job\<close> being distinct (they are UUIDs), a job has a result path if and only if
  its status is \<open>COMPLETED\<close>; so \<open>get_job_result\<close> returns a file exactly for the completed
  jobs. States are taken between any two steps, that is at every suspension point.
\<close>

theorem result_path_iff_completed:
  "initial cfg s0 \<and> distinct (created evs) \<and> jobs (run cfg s0 evs) j = Some job \<longrightarrow>
     (result_path job \<noteq> None \<longleftrightarrow> status job = COMPLETED) \<and>
     ((\<exists>path. get_job_result j (run cfg s0 evs) = Inr path) \<longleftrightarrow> status job = COMPLETED)"
proof (intro impI, elim conjE)
  assume a: "initial cfg s0" "distinct (created evs)" and b: "jobs (run cfg s0 evs) j = Some job"
  from inv_reachable [OF a] have "inv_done (run cfg s0 evs)" by (simp add: inv_def)
  with b have c: "result_path job \<noteq> None \<longleftrightarrow> status job = COMPLETED"
    unfolding inv_done_def by blast
  with b show "(result_path job \<noteq> None \<longleftrightarrow> status job = COMPLETED) \<and>
     ((\<exists>path. get_job_result j (run cfg s0 evs) = Inr path) \<longleftrightarrow> status job = COMPLETED)"
    by (auto simp: get_job_result_def)
qed

text \<open>The run of a job that fails once, is retried and completes.\<close>

theorem result_path_iff_completed_witness:
  "initial CONFIG (start CONFIG) \<and> distinct (created retried_completed) \<and>
   map_option status (jobs (run CONFIG (start CONFIG) retried_completed) ''job-1'') = Some COMPLETED \<and>
   map_option result_path (jobs (run CONFIG (start CONFIG) retried_completed) ''job-1'')
     = Some (Some ''outputs/job-1_out.mp4'') \<and>
   get_job_result ''job-1'' (run CONFIG (start CONFIG) retried_completed) = Inr ''outputs/job-1_out.mp4''"
proof -
  have a: "initial CONFIG (start CONFIG)" by (rule initial_start)
  have b: "distinct (created retried_completed)" by (simp add: run_defs)
  obtain job where c: "jobs (run CONFIG (start CONFIG) retried_completed) ''job-1'' = Some job"
    and d: "result_path job = Some ''outputs/job-1_out.mp4''"
    by (simp add: run_defs exec_defs)
  from result_path_iff_completed [of CONFIG "start CONFIG" retried_completed "''job-1''" job] a b c d
  have "status job = COMPLETED" by simp
  with a b c d show ?thesis by (simp add: get_job_result_def)
qed

lemma retry_ok_initial: "initial cfg s \<Longrightarrow> retry_ok cfg s"
  by (simp add: initial_def retry_ok_def)

lemma finishing_step_queue:
  assumes "workers s w = Some (Finishing j)"
  shows "set (job_queue (step cfg s (Work w r))) \<subseteq> set (job_queue s)"
proof (cases r)
  case Resume
  obtain x q where d: "dequeue (job_queue s) (jobs s) = (x, q)"
    by (cases "dequeue (job_queue s) (jobs s)")
  from dequeue_props [OF d] have "set q \<subseteq> set (job_queue s)" by simp
  with assms Resume d show ?thesis
    by (auto simp: worker_step_def worker_resume_def worker_loop_def split: option.splits)
qed (use assms in \<open>simp_all add: worker_step_def\<close>)

text \<open>
  Claim C2. With a maximum of retries that is not negative, the retry counter of every job lies
  between 0 and the maximum in every state of every run. When the handler of \<open>_process_job\<close>
  runs for a job whose counter has reached the maximum, the job is \<open>FAILED\<close> with the error
  message, the counter and the queue are unchanged, the task ends without a retry sleep, and the
  next step of the worker puts nothing into the queue. On the configuration of the source
  (3 retries), with an upload that always fails, \<open>_upload_to_comfyui\<close> is called exactly 4 times,
  also when the worker is resumed again and again afterwards, and the job ends \<open>FAILED\<close> with
  \<open>retry_count = 3\<close>.
\<close>

theorem retry_count_bounded:
  "(initial cfg s0 \<and> 0 \<le> max_retries cfg \<and> jobs (run cfg s0 evs) j = Some job \<longrightarrow>
      0 \<le> retry_count job \<and> retry_count job \<le> max_retries cfg) \<and>
   (jobs s j = Some job' \<and> max_retries cfg \<le> retry_count job' \<longrightarrow>
      jobs (fail_attempt cfg w j e s) j = Some (job'\<lparr> status := FAILED, error_message := Some e \<rparr>) \<and>
      job_queue (fail_attempt cfg w j e s) = job_queue s \<and>
      workers (fail_attempt cfg w j e s) w = Some (Finishing j) \<and>
      set (job_queue (step cfg (fail_attempt cfg w j e s) (Work w r))) \<subseteq> set (job_queue s)) \<and>
   map_option status (jobs (run CONFIG (start CONFIG) upload_always_fails) ''job-1'') = Some FAILED \<and>
   map_option retry_count (jobs (run CONFIG (start CONFIG) upload_always_fails) ''job-1'') = Some 3 \<and>
   backend_calls (run CONFIG (start CONFIG) upload_always_fails) =
     [Upload ''uploads/0_cat.png'', Upload ''uploads/0_cat.png'',
      Upload ''uploads/0_cat.png'', Upload ''uploads/0_cat.png''] \<and>
   job_queue (run CONFIG (start CONFIG) upload_always_fails) = [] \<and>
   workers (run CONFIG (start CONFIG) upload_always_fails) 1 = Some Idle"
proof (intro conjI impI)
  assume a: "initial cfg s0 \<and> 0 \<le> max_retries cfg \<and> jobs (run cfg s0 evs) j = Some job"
  then have "retry_ok cfg (run cfg s0 evs)" by (simp add: retry_ok_initial retry_ok_run)
  with a show "0 \<le> retry_count job" "retry_count job \<le> max_retries cfg"
    unfolding retry_ok_def by blast+
next
  assume b: "jobs s j = Some job' \<and> max_retries cfg \<le> retry_count job'"
  then show f: "jobs (fail_attempt cfg w j e s) j = Some (job'\<lparr> status := FAILED, error_message := Some e \<rparr>)"
    and "job_queue (fail_attempt cfg w j e s) = job_queue s"
    and g: "workers (fail_attempt cfg w j e s) w = Some (Finishing j)"
    by (simp_all add: fail_attempt_def Let_def)
  from finishing_step_queue [OF g, of cfg r] \<open>job_queue (fail_attempt cfg w j e s) = job_queue s\<close>
  show "set (job_queue (step cfg (fail_attempt cfg w j e s) (Work w r))) \<subseteq> set (job_queue s)"
    by simp
qed (simp_all add: run_defs exec_defs char_of_48)

text \<open>
  The job after one failure, and the job whose fourth upload is under way, with three
  retries behind it.
\<close>

theorem retry_count_bounded_witness:
  "initial CONFIG (start CONFIG) \<and> 0 \<le> max_retries CONFIG \<and>
   map_option retry_count (jobs (run CONFIG (start CONFIG) retried) ''job-1'') = Some 1 \<and>
   max_retries CONFIG = 3 \<and>
   map_option retry_count (jobs (run CONFIG (start CONFIG) three_failures) ''job-1'') = Some 3 \<and>
   workers (run CONFIG (start CONFIG) three_failures) 1 = Some (AwaitUpload ''job-1'') \<and>
   job_queue (run CONFIG (start CONFIG) three_failures) = [] \<and>
   map_option status
     (jobs (fail_attempt CONFIG 1 ''job-1'' ''500: Upload failed''
        (run CONFIG (start CONFIG) three_failures)) ''job-1'') = Some FAILED \<and>
   job_queue (fail_attempt CONFIG 1 ''job-1'' ''500: Upload failed''
        (run CONFIG (start CONFIG) three_failures)) = [] \<and>
   workers (fail_attempt CONFIG 1 ''job-1'' ''500: Upload failed''
        (run CONFIG (start CONFIG) three_failures)) 1 = Some (Finishing ''job-1'')"
proof -
  let ?t = "run CONFIG (start CONFIG) three_failures"
  have a: "initial CONFIG (start CONFIG)" by (rule initial_start)
  have b: "0 \<le> max_retries CONFIG" "max_retries CONFIG = 3" by (simp_all add: CONFIG_def)
  obtain job where c: "jobs (run CONFIG (start CONFIG) retried) ''job-1'' = Some job"
    and d: "retry_count job = 1"
    by (simp add: run_defs exec_defs)
  obtain job' where e: "jobs ?t ''job-1'' = Some job'" and f: "retry_count job' = 3"
    by (simp add: run_defs exec_defs)
  have g: "workers ?t 1 = Some (AwaitUpload ''job-1'')" "job_queue ?t = []"
    by (simp_all add: run_defs exec_defs)
  from retry_count_bounded
         [where cfg = CONFIG and ?s0.0 = "start CONFIG" and evs = retried and j = "''job-1''"
            and job = job, THEN conjunct1] a b c
  have 1: "0 \<le> retry_count job \<and> retry_count job \<le> max_retries CONFIG" by simp
  from retry_count_bounded
         [where cfg = CONFIG and s = ?t and j = "''job-1''" and job' = job' and w = 1
            and e = "''500: Upload failed''", THEN conjunct2, THEN conjunct1] b e f
  have 2: "jobs (fail_attempt CONFIG 1 ''job-1'' ''500: Upload failed'' ?t) ''job-1''
             = Some (job'\<lparr> status := FAILED, error_message := Some ''500: Upload failed'' \<rparr>)"
    and 3: "job_queue (fail_attempt CONFIG 1 ''job-1'' ''500: Upload failed'' ?t) = job_queue ?t"
    and 4: "workers (fail_attempt CONFIG 1 ''job-1'' ''500: Upload failed'' ?t) 1
             = Some (Finishing ''job-1'')"
    by simp_all
  from a b c d e f g 1 2 3 4 show ?thesis by simp
qed




text \<open>
  The case against claim C6 as stated: cancelling a completed job and cancelling an identifier
  that is unknown both return \<open>False\<close>, which the route turns into the same 404 response.
\<close>

theorem cancel_terminal_same_as_unknown:
  "map_option status (jobs (run CONFIG (start CONFIG) retried_completed) ''job-1'') = Some COMPLETED \<and>
   jobs (run CONFIG (start CONFIG) retried_completed) ''job-9'' = None \<and>
   snd (cancel_job ''job-1'' (run CONFIG (start CONFIG) retried_completed)) = Some False \<and>
   snd (cancel_job ''job-9'' (run CONFIG (start CONFIG) retried_completed)) = Some False \<and>
   cancel_job_route False = Inl (HTTPException 404 ''Job not found or cannot be cancelled'')"
  by (simp add: run_defs exec_defs cancel_job_route_def)

text \<open>
  Claim C6, amended. Cancelling a job whose status is \<open>PENDING\<close>, \<open>UPLOADING\<close> or
  \<open>PROCESSING\<close> sets its status to \<open>CANCELLED\<close> at once and returns \<open>True\<close>, at once or after
  the backend \<open>DELETE\<close>; cancelling a job that is \<open>COMPLETED\<close>, \<open>FAILED\<close> or \<open>CANCELLED\<close>, and
  cancelling an unknown identifier, change nothing and return \<open>False\<close>, for which the route
  raises one and the same 404 "Job not found or cannot be cancelled".
\<close>

theorem cancel_job_outcomes:
  "(jobs s j = Some job \<and> status job \<in> {PENDING, UPLOADING, PROCESSING} \<longrightarrow>
      map_option status (jobs (fst (cancel_job j s)) j) = Some CANCELLED \<and>
      snd (cancel_job j s) \<noteq> Some False \<and>
      snd (cancel_job_finish j s') = True) \<and>
   (jobs s j = Some job \<and> status job \<in> {COMPLETED, FAILED, CANCELLED} \<longrightarrow>
      cancel_job j s = (s, Some False)) \<and>
   (jobs s j = None \<longrightarrow> cancel_job j s = (s, Some False)) \<and>
   cancel_job_route True = Inr [(''status'', ''cancelled'')] \<and>
   cancel_job_route False = Inl (HTTPException 404 ''Job not found or cannot be cancelled'')"
  by (auto simp: cancel_job_def cancel_job_finish_def cancel_task_jobs cancel_job_route_def Let_def
        split: option.splits)

theorem cancel_job_outcomes_witness:
  "map_option status (jobs (run CONFIG (start CONFIG) [Create ''job-1'' ''cat.png'' example_config]) ''job-1'')
     = Some PENDING \<and>
   map_option status (jobs (fst (cancel_job ''job-1''
       (run CONFIG (start CONFIG) [Create ''job-1'' ''cat.png'' example_config]))) ''job-1'') = Some CANCELLED \<and>
   map_option status (jobs (run CONFIG (start CONFIG) retried_completed) ''job-1'') = Some COMPLETED \<and>
   cancel_job ''job-1'' (run CONFIG (start CONFIG) retried_completed)
     = (run CONFIG (start CONFIG) retried_completed, Some False) \<and>
   jobs (start CONFIG) ''job-1'' = None \<and>
   cancel_job ''job-1'' (start CONFIG) = (start CONFIG, Some False)"
proof -
  let ?p = "run CONFIG (start CONFIG) [Create ''job-1'' ''cat.png'' example_config]"
  let ?c = "run CONFIG (start CONFIG) retried_completed"
  obtain job where a: "jobs ?p ''job-1'' = Some job" and b: "status job = PENDING"
    by (simp add: exec_defs)
  obtain job' where c: "jobs ?c ''job-1'' = Some job'" and d: "status job' = COMPLETED"
    by (simp add: run_defs exec_defs)
  have e: "jobs (start CONFIG) ''job-1'' = None" by (simp add: start_def)
  from cancel_job_outcomes [of ?p "''job-1''" job] a b
  have 1: "map_option status (jobs (fst (cancel_job ''job-1'' ?p)) ''job-1'') = Some CANCELLED" by simp
  from cancel_job_outcomes [of ?c "''job-1''" job'] c d
  have 2: "cancel_job ''job-1'' ?c = (?c, Some False)" by simp
  from cancel_job_outcomes [of "start CONFIG" "''job-1''"] e
  have 3: "cancel_job ''job-1'' (start CONFIG) = (start CONFIG, Some False)" by simp
  from a b c d e 1 2 3 show ?thesis by simp
qed

text \<open>
  Claim C4, on the run where a job is cancelled while its task runs: the \<open>CancelledError\<close>
  leaves the worker loop, the only worker of the configuration ends, the second job stays
  queued and \<open>PENDING\<close>, and no later resumption of the worker changes the state.
\<close>

theorem worker_ends_when_task_cancelled:
  "workers (run CONFIG (start CONFIG) cancel_running) 1 = Some Dead \<and>
   max_concurrent_jobs CONFIG = 1 \<and>
   job_queue (run CONFIG (start CONFIG) cancel_running) = [''job-2''] \<and>
   map_option status (jobs (run CONFIG (start CONFIG) cancel_running) ''job-2'') = Some PENDING \<and>
   step CONFIG (run CONFIG (start CONFIG) cancel_running) (Work w r)
     = run CONFIG (start CONFIG) cancel_running"
proof -
  have a: "workers (run CONFIG (start CONFIG) cancel_running) = (\<lambda>i. if i = 1 then Some Dead else None)"
    by (auto simp: run_defs exec_defs)
  have "step CONFIG (run CONFIG (start CONFIG) cancel_running) (Work w r)
     = run CONFIG (start CONFIG) cancel_running"
    by (simp add: worker_step_def a)
  moreover have "job_queue (run CONFIG (start CONFIG) cancel_running) = [''job-2'']"
    "map_option status (jobs (run CONFIG (start CONFIG) cancel_running) ''job-2'') = Some PENDING"
    by (simp_all add: run_defs exec_defs)
  ultimately show ?thesis using a by (simp add: CONFIG_def)
qed


text \<open>
  The case against claim C1 as stated: a job that failed an attempt with retries left is
  \<open>FAILED\<close>, and \<open>UPLOADING\<close> again once the retry starts.
\<close>

theorem failed_job_returns_to_uploading:
  "map_option status (jobs (run CONFIG (start CONFIG) failed_once) ''job-1'') = Some FAILED \<and>
   retried = failed_once @ [Tick 5, Work 1 Resume, Work 1 Resume, Work 1 Resume] \<and>
   map_option status (jobs (run CONFIG (start CONFIG) retried) ''job-1'') = Some UPLOADING"
  by (simp add: run_defs exec_defs)

text \<open>
  Claim C1, amended. Once a job is \<open>COMPLETED\<close>, \<open>FAILED\<close> or \<open>CANCELLED\<close> and its identifier
  is neither in the queue nor that of a task that is not done, no sequence of worker steps,
  cancellations and other events changes the job, its status included, and it stays so. A
  \<open>COMPLETED\<close> job of a run from the initial state is always in that situation.
\<close>

theorem terminal_job_at_rest_is_final:
  "(jobs s j = Some job \<and> status job \<in> {COMPLETED, FAILED, CANCELLED} \<and> at_rest s j \<and>
    j \<notin> set (created evs) \<longrightarrow>
      jobs (run cfg s evs) j = Some job \<and> at_rest (run cfg s evs) j) \<and>
   (initial cfg s0 \<and> distinct (created (evs0 @ evs)) \<and> jobs (run cfg s0 evs0) j = Some job \<and>
    status job = COMPLETED \<longrightarrow>
      jobs (run cfg s0 (evs0 @ evs)) j = Some job)"
proof (intro conjI impI)
  assume a: "jobs s j = Some job \<and> status job \<in> {COMPLETED, FAILED, CANCELLED} \<and> at_rest s j \<and>
    j \<notin> set (created evs)"
  then have "at_rest (run cfg s evs) j \<and> jobs (run cfg s evs) j = Some job"
    by (intro rest_run) simp_all
  then show "jobs (run cfg s evs) j = Some job" "at_rest (run cfg s evs) j" by simp_all
next
  assume a: "initial cfg s0 \<and> distinct (created (evs0 @ evs)) \<and> jobs (run cfg s0 evs0) j = Some job \<and>
    status job = COMPLETED"
  have c: "created (evs0 @ evs) = created evs0 @ created evs"
    by (induction evs0 rule: created.induct) simp_all
  from a c have d: "distinct (created evs0)" by simp
  from a have "inv (run cfg s0 evs0)" using d by (simp add: inv_reachable)
  with a have r: "at_rest (run cfg s0 evs0) j" by (simp add: completed_at_rest)
  from a have "j \<in> dom (jobs (run cfg s0 evs0))" by blast
  with a have "j \<in> set (created evs0)" by (simp add: dom_run initial_def)
  with a c have f: "j \<notin> set (created evs)" by auto
  have "at_rest (run cfg (run cfg s0 evs0) evs) j \<and> jobs (run cfg (run cfg s0 evs0) evs) j = Some job"
    by (rule rest_run) (use a r f in simp_all)
  then show "jobs (run cfg s0 (evs0 @ evs)) j = Some job" by (simp add: run_append)
qed

theorem terminal_job_at_rest_is_final_witness:
  "map_option status (jobs (run CONFIG (start CONFIG) retried_completed) ''job-1'') = Some COMPLETED \<and>
   at_rest (run CONFIG (start CONFIG) retried_completed) ''job-1'' \<and>
   ''job-1'' \<notin> set (created [Cancel ''job-1'', Work 1 Resume, Tick 1]) \<and>
   initial CONFIG (start CONFIG) \<and>
   distinct (created (retried_completed @ [Cancel ''job-1'', Work 1 Resume, Tick 1])) \<and>
   jobs (run CONFIG (run CONFIG (start CONFIG) retried_completed) [Cancel ''job-1'', Work 1 Resume, Tick 1])
     ''job-1'' = jobs (run CONFIG (start CONFIG) retried_completed) ''job-1'' \<and>
   jobs (run CONFIG (start CONFIG) (retried_completed @ [Cancel ''job-1'', Work 1 Resume, Tick 1]))
     ''job-1'' = jobs (run CONFIG (start CONFIG) retried_completed) ''job-1''"
proof -
  let ?s = "run CONFIG (start CONFIG) retried_completed"
  let ?evs = "[Cancel ''job-1'', Work 1 Resume, Tick 1]"
  obtain job where a: "jobs ?s ''job-1'' = Some job" and b: "status job = COMPLETED"
    by (simp add: run_defs exec_defs)
  have c: "at_rest ?s ''job-1''"
    by (auto simp: at_rest_def run_defs exec_defs split: if_splits)
  have d: "''job-1'' \<notin> set (created ?evs)" by simp
  have e: "initial CONFIG (start CONFIG)" by (rule initial_start)
  have f: "distinct (created (retried_completed @ ?evs))" by (simp add: run_defs)
  from terminal_job_at_rest_is_final
         [where s = ?s and j = "''job-1''" and job = job and evs = ?evs and cfg = CONFIG,
          THEN conjunct1] a b c d
  have 1: "jobs (run CONFIG ?s ?evs) ''job-1'' = Some job" by simp
  from terminal_job_at_rest_is_final
         [where cfg = CONFIG and ?s0.0 = "start CONFIG" and ?evs0.0 = retried_completed
            and evs = ?evs and j = "''job-1''" and job = job, THEN conjunct2] a b e f
  have 2: "jobs (run CONFIG (start CONFIG) (retried_completed @ ?evs)) ''job-1'' = Some job" by simp
  from a b c d e f 1 2 show ?thesis by simp
qed

text \<open>
  The case against claim C3 as stated: the first attempt fails at submission with progress 40,
  and the retry starts with progress 10.
\<close>

theorem progress_reset_by_retry:
  "map_option progress (jobs (run CONFIG (start CONFIG) failed_once) ''job-1'') = Some 40 \<and>
   retried = failed_once @ [Tick 5, Work 1 Resume, Work 1 Resume, Work 1 Resume] \<and>
   map_option progress (jobs (run CONFIG (start CONFIG) retried) ''job-1'') = Some 10 \<and>
   map_option status (jobs (run CONFIG (start CONFIG) retried) ''job-1'') = Some UPLOADING \<and>
   map_option retry_count (jobs (run CONFIG (start CONFIG) retried) ''job-1'') = Some 1"
  by (simp add: run_defs exec_defs)

text \<open>
  Claim C3, amended. Along a run from the initial state (the clock not running backwards), a
  step never lowers the progress of a job, except the start of a pipeline attempt, which sets
  it to 10: progress is non-decreasing within one attempt, and every attempt, the retries
  included, starts again from 10.
\<close>

theorem progress_drops_only_at_attempt_start:
  "initial cfg s0 \<and> distinct (created (evs @ [ev])) \<and> jobs (run cfg s0 evs) j = Some job \<longrightarrow>
     (\<exists>job'. jobs (run cfg s0 (evs @ [ev])) j = Some job' \<and>
        (progress job \<le> progress job' \<or>
         (\<exists>w. ev = Work w Resume \<and> workers (run cfg s0 evs) w = Some (Spawned j) \<and>
              progress job' = 10)))"
proof
  assume a: "initial cfg s0 \<and> distinct (created (evs @ [ev])) \<and> jobs (run cfg s0 evs) j = Some job"
  have c: "created (evs @ [ev]) = created evs @ created [ev]"
    by (induction evs rule: created.induct) simp_all
  from a c have d: "distinct (created evs)" by simp
  with a have "inv (run cfg s0 evs)" by (simp add: inv_reachable)
  then have p: "inv_pc (run cfg s0 evs)" by (simp add: inv_def)
  from a have "j \<in> dom (jobs (run cfg s0 evs))" by blast
  with a have "j \<in> set (created evs)" by (simp add: dom_run initial_def)
  with a c have f: "j \<notin> set (created [ev])" by auto
  from a have b: "jobs (run cfg s0 evs) j = Some job" by simp
  from progress_step [OF p b f, of cfg]
  show "\<exists>job'. jobs (run cfg s0 (evs @ [ev])) j = Some job' \<and>
        (progress job \<le> progress job' \<or>
         (\<exists>w. ev = Work w Resume \<and> workers (run cfg s0 evs) w = Some (Spawned j) \<and>
              progress job' = 10))"
    by (simp add: run_append run_def)
qed

theorem progress_drops_only_at_attempt_start_witness:
  "initial CONFIG (start CONFIG) \<and>
   distinct (created (retried @ [Work 1 (Returned ''cat.png'')])) \<and>
   map_option progress (jobs (run CONFIG (start CONFIG) retried) ''job-1'') = Some 10 \<and>
   map_option progress (jobs (run CONFIG (start CONFIG) (retried @ [Work 1 (Returned ''cat.png'')])) ''job-1'')
     = Some 40"
proof -
  let ?ev = "Work 1 (Returned ''cat.png'')"
  have a: "initial CONFIG (start CONFIG)" by (rule initial_start)
  have b: "distinct (created (retried @ [?ev]))" by (simp add: run_defs)
  obtain job where c: "jobs (run CONFIG (start CONFIG) retried) ''job-1'' = Some job"
    and d: "progress job = 10"
    by (simp add: run_defs exec_defs)
  from progress_drops_only_at_attempt_start [of CONFIG "start CONFIG" retried ?ev "''job-1''" job] a b c
  obtain job' where e: "jobs (run CONFIG (start CONFIG) (retried @ [?ev])) ''job-1'' = Some job'"
    and "progress job \<le> progress job'"
    by auto
  have "map_option progress (jobs (run CONFIG (start CONFIG) (retried @ [?ev])) ''job-1'') = Some 40"
    by (simp add: run_defs exec_defs)
  with a b c d show ?thesis by simp
qed

text \<open>
  The case against claim C5 as stated: during the retry sleep the cancellation returns
  \<open>False\<close> and changes nothing, and the identifier is queued again when the sleep ends.
\<close>

theorem cancel_during_retry_delay_rejected:
  "workers (run CONFIG (start CONFIG) failed_once) 1 = Some (RetrySleep ''job-1'') \<and>
   cancel_job ''job-1'' (run CONFIG (start CONFIG) failed_once)
     = (run CONFIG (start CONFIG) failed_once, Some False) \<and>
   cancel_job_route False = Inl (HTTPException 404 ''Job not found or cannot be cancelled'') \<and>
   job_queue (run CONFIG (start CONFIG) (failed_once @ [Cancel ''job-1''])) = [] \<and>
   job_queue (run CONFIG (start CONFIG) (failed_once @ [Cancel ''job-1'', Tick 5, Work 1 Resume]))
     = [''job-1'']"
  by (simp add: run_defs exec_defs cancel_job_route_def)

text \<open>
  Claim C5, amended. While a job waits out the retry delay its status is \<open>FAILED\<close>, so a
  cancellation request arriving then is rejected (\<open>cancel_job\<close> returns \<open>False\<close>) and leaves the
  state as it is, and when the delay ends the identifier is put into the queue again.
\<close>

theorem retry_delay_cancel_has_no_effect:
  "initial cfg s0 \<and> distinct (created evs) \<and> workers (run cfg s0 evs) w = Some (RetrySleep j) \<longrightarrow>
     cancel_job j (run cfg s0 evs) = (run cfg s0 evs, Some False) \<and>
     step cfg (run cfg s0 evs) (Cancel j) = run cfg s0 evs \<and>
     job_queue (step cfg (run cfg s0 evs) (Work w Resume)) = job_queue (run cfg s0 evs) @ [j]"
proof
  let ?s = "run cfg s0 evs"
  assume a: "initial cfg s0 \<and> distinct (created evs) \<and> workers ?s w = Some (RetrySleep j)"
  then have i: "inv ?s" by (simp add: inv_reachable)
  have r: "running (RetrySleep j) = Some j" by simp
  from i a have "j \<in> dom (jobs ?s)" unfolding inv_def inv_struct_def using r by blast
  then obtain job where b: "jobs ?s j = Some job" by blast
  from i have p: "inv_pc ?s" by (simp add: inv_def)
  from a have wk: "workers ?s w = Some (RetrySleep j)" by simp
  from pc_running [OF p wk r b] have f: "status job = FAILED" by simp
  from b f have c: "cancel_job j ?s = (?s, Some False)" by (simp add: cancel_job_def)
  from a b have "job_queue (step cfg ?s (Work w Resume)) = job_queue ?s @ [j]"
    by (simp add: worker_step_def retry_woke_def queue_job_def dom_def)
  with c show "cancel_job j ?s = (?s, Some False) \<and> step cfg ?s (Cancel j) = ?s \<and>
     job_queue (step cfg ?s (Work w Resume)) = job_queue ?s @ [j]"
    by simp
qed

theorem retry_delay_cancel_has_no_effect_witness:
  "initial CONFIG (start CONFIG) \<and> distinct (created failed_once) \<and>
   workers (run CONFIG (start CONFIG) failed_once) 1 = Some (RetrySleep ''job-1'') \<and>
   step CONFIG (run CONFIG (start CONFIG) failed_once) (Cancel ''job-1'')
     = run CONFIG (start CONFIG) failed_once \<and>
   job_queue (step CONFIG (run CONFIG (start CONFIG) failed_once) (Work 1 Resume)) = [''job-1'']"
proof -
  have a: "initial CONFIG (start CONFIG)" by (rule initial_start)
  have b: "distinct (created failed_once)" by (simp add: run_defs)
  have c: "workers (run CONFIG (start CONFIG) failed_once) 1 = Some (RetrySleep ''job-1'')"
    by (simp add: run_defs exec_defs)
  have d: "job_queue (run CONFIG (start CONFIG) failed_once) = []"
    by (simp add: run_defs exec_defs)
  from retry_delay_cancel_has_no_effect [of CONFIG "start CONFIG" failed_once 1 "''job-1''"] a b c d
  show ?thesis by simp
qed

end
